theory Spec2Isabelle
  imports Main "HOL-Library.Word"
begin

unbundle bit_operations_syntax

section \<open>Values\<close>

text \<open>
  Inputs, results and cached values are JavaScript values.  The model covers the values
  that survive a JSON round trip and are trees: \<open>null\<close>, booleans, numbers, strings,
  arrays and plain objects, where no array or object occurs at two places of one value.
  A number is an integer \<open>n\<close> with \<open>- 2\<^sup>5\<^sup>3 \<le> n < 2\<^sup>5\<^sup>3\<close>, held as a signed word of 54
  bits (read with \<open>sint\<close>): these are integers that a JavaScript number holds exactly
  and writes digit by digit.  A string is the list of the bytes of its UTF-8 encoding.
  An object is the list of its own enumerable properties in the order of their
  creation; the keys of one object are distinct.
\<close>

datatype json =
    JNull
  | JBool bool
  | JNum "54 word"
  | JStr string
  | JArr "json list"
  | JObj "(string \<times> json) list"

text \<open>JavaScript truthiness, as tested by \<^verbatim>\<open>if (cachedResult)\<close>.\<close>

fun truthy :: "json \<Rightarrow> bool" where
  "truthy JNull = False"
| "truthy (JBool b) = b"
| "truthy (JNum n) = (n \<noteq> 0)"
| "truthy (JStr s) = (s \<noteq> [])"
| "truthy (JArr xs) = True"
| "truthy (JObj kvs) = True"

text \<open>\<^verbatim>\<open>undefined\<close> is \<open>None\<close>; it is falsy.\<close>

fun truthy_opt :: "json option \<Rightarrow> bool" where
  "truthy_opt None = False"
| "truthy_opt (Some v) = truthy v"

section \<open>Errors\<close>

text \<open>A validation error of the schema library: a path and a message.\<close>

type_synonym ValueError = "string \<times> string"

text \<open>
  What a JavaScript \<^verbatim>\<open>throw\<close> or a rejected promise carries: an \<^verbatim>\<open>Error\<close> with
  its message, a \<^verbatim>\<open>TypeError\<close> raised by the engine (the text names the expression
  that failed), or the \<^verbatim>\<open>ValidationError\<close> class of the tool with its fields
  \<^verbatim>\<open>errors\<close> and \<^verbatim>\<open>type\<close>.
\<close>

datatype error =
    Error string
  | TypeError string
  | ValidationError "ValueError list" "string option"

section \<open>Serialization: \<^verbatim>\<open>SuperJSON.stringify\<close>\<close>

text \<open>
  Digits, and the text of a number: on the integers of the model Number-to-string
  writes the decimal digits, with a minus sign in front of a negative number.
\<close>

definition hex_digit :: "nat \<Rightarrow> char" where
  "hex_digit n = ''0123456789abcdef'' ! n"

definition dec_digit :: "nat \<Rightarrow> char" where
  "dec_digit n = ''0123456789'' ! n"

fun show_nat :: "nat \<Rightarrow> string" where
  "show_nat n = (if n < 10 then [dec_digit n] else show_nat (n div 10) @ [dec_digit (n mod 10)])"

declare show_nat.simps [simp del]

definition show_int :: "int \<Rightarrow> string" where
  "show_int i = (if i < 0 then CHR ''-'' # show_nat (nat (- i)) else show_nat (nat i))"

text \<open>
  \<^verbatim>\<open>JSON.stringify\<close> on a string: the quotation mark and the backslash are escaped,
  the control characters below U+0020 are written as their short escapes or as
  \<^verbatim>\<open>\u00XX\<close>, every other byte is copied.
\<close>

definition escape_char :: "char \<Rightarrow> string" where
  "escape_char c =
     (if c = CHR 0x22 then [CHR 0x5C, CHR 0x22]
      else if c = CHR 0x5C then [CHR 0x5C, CHR 0x5C]
      else if c = CHR 0x08 then [CHR 0x5C, CHR ''b'']
      else if c = CHR 0x0C then [CHR 0x5C, CHR ''f'']
      else if c = CHR 0x0A then [CHR 0x5C, CHR ''n'']
      else if c = CHR 0x0D then [CHR 0x5C, CHR ''r'']
      else if c = CHR 0x09 then [CHR 0x5C, CHR ''t'']
      else if (of_char c :: nat) < 32
        then [CHR 0x5C, CHR ''u'', CHR ''0'', CHR ''0'',
              hex_digit (of_char c div 16), hex_digit (of_char c mod 16)]
      else [c])"

definition quote :: "string \<Rightarrow> string" where
  "quote s = [CHR 0x22] @ concat (map escape_char s) @ [CHR 0x22]"

fun join :: "string \<Rightarrow> string list \<Rightarrow> string" where
  "join sep [] = []"
| "join sep [x] = x"
| "join sep (x # y # ys) = x @ sep @ join sep (y # ys)"

text \<open>
  The order in which JavaScript enumerates the own properties of an object
  (\<^verbatim>\<open>Object.entries\<close>, and the same for \<^verbatim>\<open>JSON.stringify\<close>): first the keys
  that are array indices, in ascending numeric order, then the other keys in the order
  of their creation.  An array index is the canonical decimal numeral of an integer
  from \<open>0\<close> to \<open>2\<^sup>3\<^sup>2 - 2\<close>: a key that is given back when the number it reads as
  is written.
\<close>

definition parse_nat :: "string \<Rightarrow> nat" where
  "parse_nat s = foldl (\<lambda>n c. 10 * n + (of_char c - 48)) 0 s"

definition array_index :: "string \<Rightarrow> nat option" where
  "array_index key =
     (let n = parse_nat key in
      if show_nat n = key \<and> n < 4294967295 then Some n else None)"

definition index_key :: "string \<times> 'a \<Rightarrow> bool" where
  "index_key kv = (array_index (fst kv) \<noteq> None)"

definition index_value :: "string \<times> 'a \<Rightarrow> nat" where
  "index_value kv = (case array_index (fst kv) of None \<Rightarrow> 0 | Some n \<Rightarrow> n)"

definition Object_entries :: "(string \<times> 'a) list \<Rightarrow> (string \<times> 'a) list" where
  "Object_entries kvs =
     sort_key index_value (filter index_key kvs) @ filter (\<lambda>kv. \<not> index_key kv) kvs"

text \<open>
  \<^verbatim>\<open>JSON.stringify\<close> without indentation.  The members of an object are written in
  enumeration order: nothing sorts the keys that are not array indices.
\<close>

function JSON_stringify :: "json \<Rightarrow> string" where
  "JSON_stringify JNull = ''null''"
| "JSON_stringify (JBool b) = (if b then ''true'' else ''false'')"
| "JSON_stringify (JNum n) = show_int (sint n)"
| "JSON_stringify (JStr s) = quote s"
| "JSON_stringify (JArr xs) = ''['' @ join '','' (map JSON_stringify xs) @ '']''"
| "JSON_stringify (JObj kvs) =
     ''{'' @ join '',''
              (map (\<lambda>kv. quote (fst kv) @ '':'' @ JSON_stringify (snd kv)) (Object_entries kvs)) @
     ''}''"
  by pat_completeness auto

termination
proof (relation "measure size")
  show "wf (measure size)" by simp
next
  fix xs :: "json list" and x
  assume "x \<in> set xs"
  then show "(x, JArr xs) \<in> measure size"
    by (induction xs) auto
next
  fix kvs :: "(string \<times> json) list" and kv
  assume "kv \<in> set (Object_entries kvs)"
  then have "kv \<in> set kvs" by (auto simp: Object_entries_def)
  then show "(snd kv, JObj kvs) \<in> measure size"
    by (induction kvs) auto
qed

text \<open>
  \<^verbatim>\<open>SuperJSON.stringify(obj)\<close> is \<^verbatim>\<open>JSON.stringify\<close> of the envelope
  \<^verbatim>\<open>{json, meta}\<close> that \<^verbatim>\<open>serialize\<close> builds.  The walker of the superjson package
  visits the elements of every array and the properties of every object in enumeration
  order; at a property named \<^verbatim>\<open>__proto__\<close>, \<^verbatim>\<open>constructor\<close> or \<^verbatim>\<open>prototype\<close> it
  throws, before it descends into the value of that property.  \<open>walker\<close> yields the
  property at which the walk throws, if there is one.  On the values of this model the
  walker changes nothing else and annotates nothing (they hold only what JSON holds, and
  no object occurs twice), so there is no \<^verbatim>\<open>meta\<close> and the envelope has the single
  member \<^verbatim>\<open>json\<close>.
\<close>

definition reserved :: "string \<Rightarrow> bool" where
  "reserved key = (key = ''__proto__'' \<or> key = ''constructor'' \<or> key = ''prototype'')"

fun first_some :: "'a option list \<Rightarrow> 'a option" where
  "first_some [] = None"
| "first_some (None # xs) = first_some xs"
| "first_some (Some x # xs) = Some x"

function walker :: "json \<Rightarrow> string option" where
  "walker (JArr xs) = first_some (map walker xs)"
| "walker (JObj kvs) =
     first_some (map (\<lambda>kv. if reserved (fst kv) then Some (fst kv) else walker (snd kv))
                   (Object_entries kvs))"
| "walker JNull = None"
| "walker (JBool b) = None"
| "walker (JNum n) = None"
| "walker (JStr s) = None"
  by pat_completeness auto

termination
proof (relation "measure size")
  show "wf (measure size)" by simp
next
  fix xs :: "json list" and x
  assume "x \<in> set xs"
  then show "(x, JArr xs) \<in> measure size"
    by (induction xs) auto
next
  fix kvs :: "(string \<times> json) list" and kv
  assume "kv \<in> set (Object_entries kvs)"
  then have "kv \<in> set kvs" by (auto simp: Object_entries_def)
  then show "(snd kv, JObj kvs) \<in> measure size"
    by (induction kvs) auto
qed

definition pollution_error :: "string \<Rightarrow> error" where
  "pollution_error key =
     Error (''Detected property '' @ key @
            ''. This is a prototype pollution risk, please remove it from your object.'')"

definition SuperJSON_stringify :: "json \<Rightarrow> error + string" where
  "SuperJSON_stringify obj =
     (case walker obj of
        Some key \<Rightarrow> Inl (pollution_error key)
      | None \<Rightarrow> Inr (JSON_stringify (JObj [(''json'', obj)])))"

section \<open>SHA-1\<close>

text \<open>
  The digest computed by \<^verbatim>\<open>crypto.createHash('sha1')\<close> and by
  \<^verbatim>\<open>crypto.subtle.digest('SHA-1', _)\<close>: FIPS 180-4 on 32-bit words.
\<close>

type_synonym w32 = "32 word"

definition rotl :: "nat \<Rightarrow> w32 \<Rightarrow> w32" where
  "rotl n x = push_bit n (take_bit (32 - n) x) OR drop_bit (32 - n) x"

definition be64 :: "nat \<Rightarrow> nat list" where
  "be64 n =
     map (\<lambda>i. unat (take_bit 8 (drop_bit (8 * (7 - i)) (word_of_nat n :: 64 word))))
       [0, 1, 2, 3, 4, 5, 6, 7]"

definition sha1_pad :: "nat list \<Rightarrow> nat list" where
  "sha1_pad msg =
     msg @ [128] @ replicate ((119 - length msg mod 64) mod 64) 0 @ be64 (8 * length msg)"

fun be_words :: "nat list \<Rightarrow> w32 list" where
  "be_words (a # b # c # d # rest) =
     (push_bit 24 (word_of_nat a) OR push_bit 16 (word_of_nat b) OR
      push_bit 8 (word_of_nat c) OR word_of_nat d) # be_words rest"
| "be_words _ = []"

text \<open>
  The message schedule: \<open>expand n ws\<close> yields the next \<open>n\<close> schedule words from
  the window \<open>ws\<close> of the sixteen words still to come,
  \<open>W\<^sub>t\<^sub>+\<^sub>1\<^sub>6 = rotl 1 (W\<^sub>t\<^sub>+\<^sub>1\<^sub>3 XOR W\<^sub>t\<^sub>+\<^sub>8 XOR W\<^sub>t\<^sub>+\<^sub>2 XOR W\<^sub>t)\<close>.
\<close>

primrec expand :: "nat \<Rightarrow> w32 list \<Rightarrow> w32 list" where
  "expand 0 ws = []"
| "expand (Suc n) ws =
     hd ws # expand n (tl ws @ [rotl 1 (ws ! 13 XOR ws ! 8 XOR ws ! 2 XOR ws ! 0)])"

definition sha1_f :: "nat \<Rightarrow> w32 \<Rightarrow> w32 \<Rightarrow> w32 \<Rightarrow> w32" where
  "sha1_f t b c d =
     (if t < 20 then (b AND c) OR (NOT b AND d)
      else if t < 40 then b XOR c XOR d
      else if t < 60 then (b AND c) OR (b AND d) OR (c AND d)
      else b XOR c XOR d)"

definition sha1_k :: "nat \<Rightarrow> w32" where
  "sha1_k t =
     (if t < 20 then 0x5A827999
      else if t < 40 then 0x6ED9EBA1
      else if t < 60 then 0x8F1BBCDC
      else 0xCA62C1D6)"

type_synonym sha_state = "w32 \<times> w32 \<times> w32 \<times> w32 \<times> w32"

fun sha1_round :: "nat \<Rightarrow> w32 \<Rightarrow> sha_state \<Rightarrow> sha_state" where
  "sha1_round t w (a, b, c, d, e) =
     (rotl 5 a + sha1_f t b c d + e + sha1_k t + w, a, rotl 30 b, c, d)"

fun sha1_rounds :: "nat \<Rightarrow> w32 list \<Rightarrow> sha_state \<Rightarrow> sha_state" where
  "sha1_rounds t [] st = st"
| "sha1_rounds t (w # ws) st = sha1_rounds (t + 1) ws (sha1_round t w st)"

fun add_state :: "sha_state \<Rightarrow> sha_state \<Rightarrow> sha_state" where
  "add_state (h0, h1, h2, h3, h4) (a, b, c, d, e) = (h0 + a, h1 + b, h2 + c, h3 + d, h4 + e)"

definition sha1_block :: "sha_state \<Rightarrow> nat list \<Rightarrow> sha_state" where
  "sha1_block h blk = add_state h (sha1_rounds 0 (expand 80 (be_words blk)) h)"

fun sha1_blocks :: "sha_state \<Rightarrow> nat list \<Rightarrow> sha_state" where
  "sha1_blocks h [] = h"
| "sha1_blocks h (b # bs) =
     sha1_blocks (sha1_block h (take 64 (b # bs))) (drop 64 (b # bs))"

fun state_words :: "sha_state \<Rightarrow> w32 list" where
  "state_words (a, b, c, d, e) = [a, b, c, d, e]"

definition sha1 :: "nat list \<Rightarrow> w32 list" where
  "sha1 msg =
     state_words
       (sha1_blocks (0x67452301, 0xEFCDAB89, 0x98BADCFE, 0x10325476, 0xC3D2E1F0)
          (sha1_pad msg))"

text \<open>\<^verbatim>\<open>digest('hex')\<close>: eight lowercase hexadecimal digits per word.\<close>

definition hex_word :: "w32 \<Rightarrow> string" where
  "hex_word w =
     map (\<lambda>i. hex_digit (unat (take_bit 4 (drop_bit (4 * (7 - i)) w))))
       [0, 1, 2, 3, 4, 5, 6, 7]"

definition sha1_hex :: "string \<Rightarrow> string" where
  "sha1_hex s = concat (map hex_word (sha1 (map of_char s)))"


section \<open>Cache key\<close>

text \<open>
  The JavaScript environment decides which branch of \<^verbatim>\<open>hashObjectSHA1\<close> runs and
  whether it finds its crypto capability: Node.js with or without
  \<^verbatim>\<open>crypto.createHash\<close>, a browser with or without \<^verbatim>\<open>crypto.subtle\<close>.  The input
  is serialized before the environment is looked at, so an error of the serialization
  comes first.
\<close>

datatype runtime = NodeJS bool | Browser bool

definition hashObjectSHA1 :: "runtime \<Rightarrow> json \<Rightarrow> error + string" where
  "hashObjectSHA1 rt obj =
     (case SuperJSON_stringify obj of
        Inl e \<Rightarrow> Inl e
      | Inr input \<Rightarrow>
          (case rt of
             NodeJS has_createHash \<Rightarrow>
               if \<not> has_createHash
               then Inl (Error ''Crypto module is not available in this environment.'')
               else Inr (sha1_hex input)
           | Browser has_subtle \<Rightarrow>
               if \<not> has_subtle
               then Inl (Error ''Web Crypto API is not available in this environment.'')
               else Inr (sha1_hex input)))"

text \<open>The initial value of the field \<^verbatim>\<open>keyFactory\<close> of \<^verbatim>\<open>ToolClass\<close>.\<close>

definition default_keyFactory :: "runtime \<Rightarrow> string \<Rightarrow> json \<Rightarrow> error + string" where
  "default_keyFactory rt prefix input =
     (case hashObjectSHA1 rt input of
        Inl e \<Rightarrow> Inl e
      | Inr h \<Rightarrow> Inr (prefix @ '':'' @ h))"

section \<open>Descriptors\<close>

datatype intent = resource | action

datatype http_method = GET | POST

text \<open>
  A schema is represented by what its compiled validator enumerates for a value: the
  list of violations, in order (empty when the value is valid).  A native TypeBox schema
  carries the \<^verbatim>\<open>Kind\<close> marker, a portable JSON schema does not.
\<close>

type_synonym TypeCheck = "json \<Rightarrow> ValueError list"

datatype schema = TSchema TypeCheck | JSONSchemaRaw TypeCheck

fun has_Kind :: "schema \<Rightarrow> bool" where
  "has_Kind (TSchema c) = True"
| "has_Kind (JSONSchemaRaw c) = False"

text \<open>
  Modelled from the spec: \<^verbatim>\<open>FromSchema\<close> of \<^verbatim>\<open>./schema/typebox-fromschema\<close> is not
  among the sources.  The spec describes it as a lossless structural conversion from
  the portable to the native form: the converted schema has the same violations.
\<close>

fun FromSchema :: "schema \<Rightarrow> schema" where
  "FromSchema (JSONSchemaRaw c) = TSchema c"
| "FromSchema (TSchema c) = TSchema c"

text \<open>\<^verbatim>\<open>TypeCompiler.Compile\<close>: the validator of a schema.\<close>

fun Compile :: "schema \<Rightarrow> TypeCheck" where
  "Compile (TSchema c) = c"
| "Compile (JSONSchemaRaw c) = c"

text \<open>
  The remote endpoint.  Its forwarding directives (\<^verbatim>\<open>redirect\<close>, \<^verbatim>\<open>proxyHeaders\<close>)
  are never read by the tool and are left out.
\<close>

record httpEndpoint_t =
  method' :: http_method
  url :: string

text \<open>
  \<^verbatim>\<open>DescribedFunc & ValidateOptions\<close>, the argument of the constructor.  An optional
  field that is absent is \<open>None\<close>.  The two cache durations are whole numbers of
  milliseconds, zero or more.  The two flags of \<^verbatim>\<open>ValidateOptions\<close> are the fields
  \<open>opt_validateInput\<close> and \<open>opt_validateResult\<close>.
\<close>

record DescribedFunc =
  name :: string
  title :: "string option"
  description :: string
  tags :: "string list option"
  intents :: "intent option"
  inputSchema :: schema
  resultSchema :: schema
  cache :: "nat option"
  clientCache :: "nat option"
  func :: "(json \<Rightarrow> json \<Rightarrow> error + json) option"
  httpEndpoint :: "httpEndpoint_t option"
  opt_validateInput :: "bool option"
  opt_validateResult :: "bool option"

section \<open>Cache stores\<close>

text \<open>
  The state of a store: its clock (milliseconds) and its entries, each a value with an
  optional expiry time.
\<close>

record store_state =
  clock :: int
  entries :: "string \<rightharpoonup> json \<times> int option"

text \<open>
  \<^verbatim>\<open>ICache\<close>: the two operations the tool calls.  An operation may reject (\<open>Inl\<close>);
  \<^verbatim>\<open>get\<close> resolves to the cached value or to \<^verbatim>\<open>undefined\<close> (\<open>None\<close>).  The third
  argument of \<^verbatim>\<open>set\<close> is what the tool passes, the optional \<^verbatim>\<open>cache\<close> of the
  descriptor.  Any pair of functions is an implementation; \<^verbatim>\<open>has\<close>, \<^verbatim>\<open>delete\<close>
  and \<^verbatim>\<open>clear\<close> are never called by the tool.
\<close>

record ICache =
  get :: "string \<Rightarrow> store_state \<Rightarrow> (error + json option) \<times> store_state"
  set' :: "string \<Rightarrow> json \<Rightarrow> nat option \<Rightarrow> store_state \<Rightarrow> (error + bool) \<times> store_state"

text \<open>
  The default store \<^verbatim>\<open>new Keyv()\<close> of the keyv package, in memory.  It never rejects;
  an entry whose expiry time has passed is deleted by \<^verbatim>\<open>get\<close> and reported as absent;
  \<^verbatim>\<open>set\<close> without a TTL or with a TTL of zero stores without expiry, and with a TTL
  of \<open>t > 0\<close> milliseconds the entry expires \<open>t\<close> milliseconds after the write.
\<close>

definition Keyv_get :: "string \<Rightarrow> store_state \<Rightarrow> (error + json option) \<times> store_state" where
  "Keyv_get key s =
     (case entries s key of
        None \<Rightarrow> (Inr None, s)
      | Some (v, expires) \<Rightarrow>
          (case expires of
             None \<Rightarrow> (Inr (Some v), s)
           | Some t \<Rightarrow>
               if clock s > t then (Inr None, s\<lparr>entries := (entries s)(key := None)\<rparr>)
               else (Inr (Some v), s)))"

definition Keyv_expires :: "nat option \<Rightarrow> store_state \<Rightarrow> int option" where
  "Keyv_expires ttl s =
     (case ttl of
        None \<Rightarrow> None
      | Some t \<Rightarrow> if t = 0 then None else Some (clock s + int t))"

definition Keyv_set :: "string \<Rightarrow> json \<Rightarrow> nat option \<Rightarrow> store_state \<Rightarrow> (error + bool) \<times> store_state" where
  "Keyv_set key v ttl s =
     (Inr True, s\<lparr>entries := (entries s)(key \<mapsto> (v, Keyv_expires ttl s))\<rparr>)"

definition Keyv :: ICache where
  "Keyv = \<lparr>get = Keyv_get, set' = Keyv_set\<rparr>"

text \<open>
  What the property \<^verbatim>\<open>cache\<close> of the options or of the tool can hold:
  \<^verbatim>\<open>undefined\<close>, \<^verbatim>\<open>false\<close>, a number (the cache duration of a descriptor), or a
  store.
\<close>

datatype js_cache = CUndefined | CFalse | CNumber nat | CStore ICache

text \<open>
  \<^verbatim>\<open>InvokeToolOptions\<close>.  The field \<^verbatim>\<open>log\<close> and the two validation flags are never
  read by \<^verbatim>\<open>invoke\<close>; \<open>log\<close> records whether a logger was passed.
\<close>

record InvokeToolOptions =
  options_cache :: js_cache
  log :: bool


section \<open>The world of an invocation\<close>

text \<open>
  \<^verbatim>\<open>invoke\<close> talks to collaborators.  Each call is recorded as an event: a run of
  the method \<^verbatim>\<open>validateInput\<close> or \<^verbatim>\<open>validateResult\<close>, \<^verbatim>\<open>get\<close> and \<^verbatim>\<open>set\<close>
  on a store, the dispatch (\<^verbatim>\<open>callFunc\<close>), and a message to the logger.  A store is
  either the one held by the tool (\<^verbatim>\<open>this.cache\<close>) or the one passed in the options.
  No statement of the tool writes to the logger, so no function below emits
  \<open>Logged\<close>.
\<close>

datatype slot = Own | Passed

datatype event =
    ValidateInput json
  | CacheGet slot string
  | Dispatch json json
  | CacheSet slot string json "nat option"
  | ValidateResult json
  | Logged string

text \<open>
  The world: the JavaScript environment, the outcome of \<^verbatim>\<open>makeRequest(url, data, method)\<close>
  (an HTTP exchange through the global \<^verbatim>\<open>fetch\<close>, decided by the remote server), the
  states of the two stores, and the events so far.
\<close>

record world =
  runtime :: runtime
  makeRequest :: "string \<Rightarrow> json \<Rightarrow> http_method option \<Rightarrow> error + json"
  own_store :: store_state
  passed_store :: store_state
  trace :: "event list"

fun store_of :: "slot \<Rightarrow> world \<Rightarrow> store_state" where
  "store_of Own w = own_store w"
| "store_of Passed w = passed_store w"

fun put_store :: "slot \<Rightarrow> store_state \<Rightarrow> world \<Rightarrow> world" where
  "put_store Own s w = w\<lparr>own_store := s\<rparr>"
| "put_store Passed s w = w\<lparr>passed_store := s\<rparr>"

definition emit :: "event \<Rightarrow> world \<Rightarrow> world" where
  "emit ev w = w\<lparr>trace := trace w @ [ev]\<rparr>"

section \<open>\<^verbatim>\<open>ToolClass\<close>\<close>

text \<open>
  The fields of an instance.  \<open>this_cache\<close> is the property \<^verbatim>\<open>cache\<close>.
  \<open>own_validateInput\<close> and \<open>own_validateResult\<close> are \<open>None\<close> as long as the instance
  has no own property of that name, so that the name resolves to the method of the
  class; \<^verbatim>\<open>Object.assign\<close> can write such a property.
\<close>

record ToolClass =
  config :: DescribedFunc
  callFunc :: "json \<Rightarrow> json \<Rightarrow> world \<Rightarrow> error + json"
  this_cache :: js_cache
  keyFactory :: "runtime \<Rightarrow> string \<Rightarrow> json \<Rightarrow> error + string"
  compiledInputSchema :: "TypeCheck option"
  compiledResultSchema :: "TypeCheck option"
  own_validateInput :: "bool option"
  own_validateResult :: "bool option"

text \<open>The constructor.  It converts the schemas of \<^verbatim>\<open>config\<close> in place.\<close>

definition new_ToolClass :: "DescribedFunc \<Rightarrow> error + ToolClass" where
  "new_ToolClass cfg =
     (if (func cfg = None \<and> httpEndpoint cfg = None) \<or> (func cfg \<noteq> None \<and> httpEndpoint cfg \<noteq> None)
      then Inl (Error ''Tool configuration must have either a function or an endpoint defined.'')
      else
        let call =
              (case func cfg of
                 Some f \<Rightarrow> (\<lambda>input context w. f input context)
               | None \<Rightarrow>
                   (\<lambda>input context w.
                      case httpEndpoint cfg of
                        None \<Rightarrow>
                          Inl (Error ''Tool configuration must have a function or an HTTP endpoint defined.'')
                      | Some ep \<Rightarrow> makeRequest w (url ep) input (Some (method' ep))));
            cfg1 = (if \<not> has_Kind (inputSchema cfg)
                    then cfg\<lparr>inputSchema := FromSchema (inputSchema cfg)\<rparr> else cfg);
            cfg2 = (if \<not> has_Kind (resultSchema cfg1)
                    then cfg1\<lparr>resultSchema := FromSchema (resultSchema cfg1)\<rparr> else cfg1)
        in Inr \<lparr>config = cfg2,
                callFunc = call,
                this_cache = CStore Keyv,
                keyFactory = default_keyFactory,
                compiledInputSchema =
                  (if opt_validateInput cfg2 \<noteq> Some False
                   then Some (Compile (inputSchema cfg2)) else None),
                compiledResultSchema =
                  (if opt_validateResult cfg2 \<noteq> Some False
                   then Some (Compile (resultSchema cfg2)) else None),
                own_validateInput = None,
                own_validateResult = None\<rparr>)"

text \<open>
  \<^verbatim>\<open>Object.assign(tool, config)\<close> copies every own property of the descriptor onto the
  instance.  Three of them meet a member of \<^verbatim>\<open>ToolClass\<close> of the same name:
  \<^verbatim>\<open>cache\<close> (the TTL replaces the store), \<^verbatim>\<open>validateInput\<close> and
  \<^verbatim>\<open>validateResult\<close> (the flag hides the method).  The other properties stay readable
  through \<open>config\<close>.
\<close>

definition Object_assign :: "ToolClass \<Rightarrow> DescribedFunc \<Rightarrow> ToolClass" where
  "Object_assign tool cfg =
     tool\<lparr>this_cache := (case cache cfg of None \<Rightarrow> this_cache tool | Some n \<Rightarrow> CNumber n),
          own_validateInput :=
            (case opt_validateInput cfg of None \<Rightarrow> own_validateInput tool | Some b \<Rightarrow> Some b),
          own_validateResult :=
            (case opt_validateResult cfg of None \<Rightarrow> own_validateResult tool | Some b \<Rightarrow> Some b)\<rparr>"

definition makeTool :: "DescribedFunc \<Rightarrow> error + ToolClass" where
  "makeTool cfg =
     (case new_ToolClass cfg of
        Inl e \<Rightarrow> Inl e
      | Inr tool \<Rightarrow> Inr (Object_assign tool (config tool)))"

subsection \<open>Validation\<close>

text \<open>
  \<^verbatim>\<open>TypeCheck.Errors(value)\<close> returns a fresh \<^verbatim>\<open>ValueErrorIterator\<close> around one
  generator of the violations.  The state of the iterator is the list of the violations
  the generator has not yielded yet.  \<^verbatim>\<open>First()\<close> calls \<^verbatim>\<open>next()\<close> on the generator,
  and the spread \<^verbatim>\<open>[...errors]\<close> drains the same generator: each one consumes what it
  returns.
\<close>

type_synonym ValueErrorIterator = "ValueError list"

definition Errors :: "TypeCheck \<Rightarrow> json \<Rightarrow> ValueErrorIterator" where
  "Errors check v = check v"

fun First :: "ValueErrorIterator \<Rightarrow> ValueError option \<times> ValueErrorIterator" where
  "First [] = (None, [])"
| "First (e # rest) = (Some e, rest)"

definition spread :: "ValueErrorIterator \<Rightarrow> ValueError list \<times> ValueErrorIterator" where
  "spread it = (it, [])"

definition validateInput :: "ToolClass \<Rightarrow> json \<Rightarrow> error + bool" where
  "validateInput this input =
     (case compiledInputSchema this of
        None \<Rightarrow> Inl (TypeError ''this.compiledInputSchema is undefined'')
      | Some check \<Rightarrow>
          (case First (Errors check input) of
             (first, errors) \<Rightarrow>
               if first \<noteq> None
               then Inl (ValidationError (fst (spread errors)) (Some ''input''))
               else Inr True))"

definition validateResult :: "ToolClass \<Rightarrow> json \<Rightarrow> error + bool" where
  "validateResult this result =
     (case compiledResultSchema this of
        None \<Rightarrow> Inl (TypeError ''this.compiledResultSchema is undefined'')
      | Some check \<Rightarrow>
          (case First (Errors check result) of
             (first, errors) \<Rightarrow>
               if first \<noteq> None
               then Inl (ValidationError (fst (spread errors)) (Some ''result''))
               else Inr True))"

text \<open>
  The calls \<^verbatim>\<open>this.validateInput(input)\<close> and \<^verbatim>\<open>this.validateResult(result)\<close>: an
  own property of that name holds a boolean, which is not callable; otherwise the
  method runs.
\<close>

definition call_validateInput :: "ToolClass \<Rightarrow> json \<Rightarrow> world \<Rightarrow> (error + bool) \<times> world" where
  "call_validateInput this input w =
     (case own_validateInput this of
        Some b \<Rightarrow> (Inl (TypeError ''this.validateInput is not a function''), w)
      | None \<Rightarrow> (validateInput this input, emit (ValidateInput input) w))"

definition call_validateResult :: "ToolClass \<Rightarrow> json \<Rightarrow> world \<Rightarrow> (error + bool) \<times> world" where
  "call_validateResult this result w =
     (case own_validateResult this of
        Some b \<Rightarrow> (Inl (TypeError ''this.validateResult is not a function''), w)
      | None \<Rightarrow> (validateResult this result, emit (ValidateResult result) w))"

subsection \<open>\<^verbatim>\<open>invoke\<close>\<close>

text \<open>
  The condition of the caching branch:
  \<^verbatim>\<open>options?.cache !== false && this.config.cache && this.config.intents === "resource"\<close>.
\<close>

definition caching_applies :: "ToolClass \<Rightarrow> InvokeToolOptions option \<Rightarrow> bool" where
  "caching_applies this options =
     ((case options of None \<Rightarrow> True | Some opts \<Rightarrow> options_cache opts \<noteq> CFalse) \<and>
      (case cache (config this) of None \<Rightarrow> False | Some ttl \<Rightarrow> ttl \<noteq> 0) \<and>
      intents (config this) = Some resource)"

text \<open>\<^verbatim>\<open>options.cache ?? this.cache\<close>, and which store state the result acts on.\<close>

definition resolve_cache :: "ToolClass \<Rightarrow> InvokeToolOptions \<Rightarrow> js_cache \<times> slot" where
  "resolve_cache this opts =
     (case options_cache opts of
        CUndefined \<Rightarrow> (this_cache this, Own)
      | c \<Rightarrow> (c, Passed))"

definition dispatch :: "ToolClass \<Rightarrow> json \<Rightarrow> json \<Rightarrow> world \<Rightarrow> (error + json) \<times> world" where
  "dispatch this input context w = (callFunc this input context w, emit (Dispatch input context) w)"

definition cache_get :: "ICache \<Rightarrow> slot \<Rightarrow> string \<Rightarrow> world \<Rightarrow> (error + json option) \<times> world" where
  "cache_get c sl key w =
     (case get c key (store_of sl w) of
        (r, s) \<Rightarrow> (r, emit (CacheGet sl key) (put_store sl s w)))"

definition cache_set :: "ICache \<Rightarrow> slot \<Rightarrow> string \<Rightarrow> json \<Rightarrow> nat option \<Rightarrow> world \<Rightarrow> (error + bool) \<times> world" where
  "cache_set c sl key v ttl w =
     (case set' c key v ttl (store_of sl w) of
        (r, s) \<Rightarrow> (r, emit (CacheSet sl key v ttl) (put_store sl s w)))"

text \<open>The last two statements of \<^verbatim>\<open>invoke\<close>: validate the result and return it.\<close>

definition validate_and_return :: "ToolClass \<Rightarrow> json \<Rightarrow> world \<Rightarrow> (error + json) \<times> world" where
  "validate_and_return this result w =
     (case call_validateResult this result w of
        (Inl e, w1) \<Rightarrow> (Inl e, w1)
      | (Inr ok, w1) \<Rightarrow> (Inr result, w1))"

text \<open>After a miss: dispatch, store the result, validate it.\<close>

definition invoke_miss :: "ToolClass \<Rightarrow> json \<Rightarrow> json \<Rightarrow> ICache \<Rightarrow> slot \<Rightarrow> string \<Rightarrow> world \<Rightarrow> (error + json) \<times> world" where
  "invoke_miss this input context c sl key w =
     (case dispatch this input context w of
        (Inl e, w1) \<Rightarrow> (Inl e, w1)
      | (Inr result, w1) \<Rightarrow>
          (case cache_set c sl key result (cache (config this)) w1 of
             (Inl e, w2) \<Rightarrow> (Inl e, w2)
           | (Inr stored, w2) \<Rightarrow> validate_and_return this result w2))"

text \<open>
  The caching branch, entered after the input has been validated.  The key is derived
  first; then \<^verbatim>\<open>options.cache\<close> is read, which throws when no options were passed.
\<close>

definition invoke_cached :: "ToolClass \<Rightarrow> json \<Rightarrow> json \<Rightarrow> InvokeToolOptions option \<Rightarrow> world \<Rightarrow> (error + json) \<times> world" where
  "invoke_cached this input context options w =
     (case keyFactory this (runtime w) (name (config this)) input of
        Inl e \<Rightarrow> (Inl e, w)
      | Inr key \<Rightarrow>
          (case options of
             None \<Rightarrow> (Inl (TypeError ''options is undefined (reading cache)''), w)
           | Some opts \<Rightarrow>
               (case resolve_cache this opts of
                  (CUndefined, sl) \<Rightarrow> (Inl (TypeError ''cache is undefined (reading get)''), w)
                | (CFalse, sl) \<Rightarrow> (Inl (TypeError ''cache.get is not a function''), w)
                | (CNumber n, sl) \<Rightarrow> (Inl (TypeError ''cache.get is not a function''), w)
                | (CStore c, sl) \<Rightarrow>
                    (case cache_get c sl key w of
                       (Inl e, w1) \<Rightarrow> (Inl e, w1)
                     | (Inr None, w1) \<Rightarrow> invoke_miss this input context c sl key w1
                     | (Inr (Some cachedResult), w1) \<Rightarrow>
                         if truthy cachedResult then (Inr cachedResult, w1)
                         else invoke_miss this input context c sl key w1))))"

text \<open>The branch that skips caching: dispatch, validate the result.\<close>

definition invoke_uncached :: "ToolClass \<Rightarrow> json \<Rightarrow> json \<Rightarrow> world \<Rightarrow> (error + json) \<times> world" where
  "invoke_uncached this input context w =
     (case dispatch this input context w of
        (Inl e, w1) \<Rightarrow> (Inl e, w1)
      | (Inr result, w1) \<Rightarrow> validate_and_return this result w1)"

definition invoke :: "ToolClass \<Rightarrow> json \<Rightarrow> json \<Rightarrow> InvokeToolOptions option \<Rightarrow> world \<Rightarrow> (error + json) \<times> world" where
  "invoke this input context options w =
     (case (if compiledInputSchema this \<noteq> None then call_validateInput this input w
            else (Inr True, w)) of
        (Inl e, w0) \<Rightarrow> (Inl e, w0)
      | (Inr ok, w0) \<Rightarrow>
          if caching_applies this options then invoke_cached this input context options w0
          else invoke_uncached this input context w0)"

section \<open>The earlier revision of the tool\<close>

text \<open>
  The sources also hold an earlier revision of \<^verbatim>\<open>ToolClass\<close>, which validates with
  Ajv and imports names that \<^verbatim>\<open>cache.ts\<close> no longer exports.  Two of its tests differ
  from the ones above: its constructor throws only when neither \<^verbatim>\<open>func\<close> nor
  \<^verbatim>\<open>httpEndpoint\<close> is set, and the condition of its caching branch is
  \<^verbatim>\<open>options?.cache !== false && this.config.cache\<close>, without a test of the intent.
\<close>

definition legacy_constructor_throws :: "DescribedFunc \<Rightarrow> bool" where
  "legacy_constructor_throws cfg = (func cfg = None \<and> httpEndpoint cfg = None)"

definition legacy_caching_applies :: "DescribedFunc \<Rightarrow> InvokeToolOptions option \<Rightarrow> bool" where
  "legacy_caching_applies cfg options =
     ((case options of None \<Rightarrow> True | Some opts \<Rightarrow> options_cache opts \<noteq> CFalse) \<and>
      (case cache cfg of None \<Rightarrow> False | Some ttl \<Rightarrow> ttl \<noteq> 0))"

section \<open>Vocabulary of the properties\<close>

text \<open>
  Structural equality of two values: the same keys with structurally equal values,
  whatever the order of the keys; arrays are compared element by element.
\<close>

fun struct_eq :: "json \<Rightarrow> json \<Rightarrow> bool" where
  "struct_eq (JArr xs) (JArr ys) = list_all2 struct_eq xs ys"
| "struct_eq (JObj xs) (JObj ys) =
     (set (map fst xs) = set (map fst ys) \<and>
      list_all
        (\<lambda>kv. case map_of ys (fst kv) of None \<Rightarrow> False | Some v \<Rightarrow> struct_eq (snd kv) v) xs)"
| "struct_eq a b = (a = b)"

text \<open>The keys of every object are distinct, as in a JavaScript object.\<close>

fun wf_json :: "json \<Rightarrow> bool" where
  "wf_json (JArr xs) = list_all wf_json xs"
| "wf_json (JObj kvs) = (distinct (map fst kvs) \<and> list_all (\<lambda>kv. wf_json (snd kv)) kvs)"
| "wf_json v = True"

text \<open>
  \<^verbatim>\<open>Object.keys\<close>: the keys of an object in enumeration order.  Two values have the
  same key order when corresponding objects enumerate their keys in the same order
  (corresponding values are the elements at the same index of two arrays and the values
  under the same key of two objects).
\<close>

definition Object_keys :: "(string \<times> 'a) list \<Rightarrow> string list" where
  "Object_keys kvs = map fst (Object_entries kvs)"

fun same_key_order :: "json \<Rightarrow> json \<Rightarrow> bool" where
  "same_key_order (JArr xs) (JArr ys) = list_all2 same_key_order xs ys"
| "same_key_order (JObj xs) (JObj ys) =
     (Object_keys xs = Object_keys ys \<and>
      list_all
        (\<lambda>kv. case map_of ys (fst kv) of None \<Rightarrow> True | Some v \<Rightarrow> same_key_order (snd kv) v) xs)"
| "same_key_order a b = True"

text \<open>Some object of the value has a property with one of the three reserved names.\<close>

fun has_reserved_key :: "json \<Rightarrow> bool" where
  "has_reserved_key (JArr xs) = list_ex has_reserved_key xs"
| "has_reserved_key (JObj kvs) =
     list_ex (\<lambda>kv. reserved (fst kv) \<or> has_reserved_key (snd kv)) kvs"
| "has_reserved_key v = False"

text \<open>The text of one member of an object, as \<^verbatim>\<open>JSON.stringify\<close> writes it.\<close>

definition member :: "string \<times> json \<Rightarrow> string" where
  "member kv = quote (fst kv) @ '':'' @ JSON_stringify (snd kv)"

text \<open>Reading a trace: the accesses to a store, and the number of dispatches.\<close>

fun is_cache_access :: "event \<Rightarrow> bool" where
  "is_cache_access (CacheGet sl k) = True"
| "is_cache_access (CacheSet sl k v t) = True"
| "is_cache_access ev = False"

fun is_dispatch :: "event \<Rightarrow> bool" where
  "is_dispatch (Dispatch i c) = True"
| "is_dispatch ev = False"

definition cache_accesses :: "event list \<Rightarrow> event list" where
  "cache_accesses evs = filter is_cache_access evs"

definition dispatches :: "event list \<Rightarrow> nat" where
  "dispatches evs = length (filter is_dispatch evs)"

text \<open>
  The first statement of \<^verbatim>\<open>invoke\<close> lets the input pass: either no input schema
  was compiled, or the method \<^verbatim>\<open>validateInput\<close> returns.  \<open>after_input\<close> is the
  world after that statement.
\<close>

definition input_accepted :: "ToolClass \<Rightarrow> json \<Rightarrow> bool" where
  "input_accepted this input =
     (compiledInputSchema this = None \<or>
      (own_validateInput this = None \<and> validateInput this input = Inr True))"

definition after_input :: "ToolClass \<Rightarrow> json \<Rightarrow> world \<Rightarrow> world" where
  "after_input this input w =
     (if compiledInputSchema this = None then w else emit (ValidateInput input) w)"

text \<open>A caller that repeats one invocation \<open>n\<close> times; the world after the last one.\<close>

primrec repeat_invoke :: "nat \<Rightarrow> ToolClass \<Rightarrow> json \<Rightarrow> json \<Rightarrow> InvokeToolOptions option \<Rightarrow> world \<Rightarrow> world" where
  "repeat_invoke 0 this input context options w = w"
| "repeat_invoke (Suc n) this input context options w =
     repeat_invoke n this input context options (snd (invoke this input context options w))"

text \<open>Time passes: the clocks of both stores advance by \<open>d\<close> milliseconds.\<close>

definition advance :: "int \<Rightarrow> world \<Rightarrow> world" where
  "advance d w =
     w\<lparr>own_store := (own_store w)\<lparr>clock := clock (own_store w) + d\<rparr>,
       passed_store := (passed_store w)\<lparr>clock := clock (passed_store w) + d\<rparr>\<rparr>"

text \<open>The accesses to the store held by the tool itself.\<close>

fun is_own_access :: "event \<Rightarrow> bool" where
  "is_own_access (CacheGet sl k) = (sl = Own)"
| "is_own_access (CacheSet sl k v t) = (sl = Own)"
| "is_own_access ev = False"

definition own_accesses :: "event list \<Rightarrow> event list" where
  "own_accesses evs = filter is_own_access evs"

text \<open>
  An invocation reaches the lookup: caching applies, the input passes, the key is
  derived as \<open>key\<close>, and \<^verbatim>\<open>options.cache ?? this.cache\<close> is the store \<open>c\<close> acting on
  the slot \<open>sl\<close>.
\<close>

definition cache_ready :: "ToolClass \<Rightarrow> InvokeToolOptions \<Rightarrow> json \<Rightarrow> world \<Rightarrow> ICache \<Rightarrow> slot \<Rightarrow> string \<Rightarrow> bool" where
  "cache_ready this opts input w c sl key =
     (caching_applies this (Some opts) \<and> input_accepted this input \<and>
      keyFactory this (runtime w) (name (config this)) input = Inr key \<and>
      resolve_cache this opts = (CStore c, sl))"

text \<open>The store of slot \<open>sl\<close> holds nothing truthy under \<open>key\<close>.\<close>

definition holds_falsy :: "slot \<Rightarrow> string \<Rightarrow> world \<Rightarrow> bool" where
  "holds_falsy sl key w =
     (case entries (store_of sl w) key of None \<Rightarrow> True | Some (v, t) \<Rightarrow> \<not> truthy v)"

section \<open>Example descriptors\<close>

definition any_schema :: schema where
  "any_schema = TSchema (\<lambda>v. [])"

definition const_func :: "json \<Rightarrow> json \<Rightarrow> json \<Rightarrow> error + json" where
  "const_func r input context = Inr r"

definition example_endpoint :: httpEndpoint_t where
  "example_endpoint = \<lparr>method' = GET, url = ''https://example.org/lookup''\<rparr>"

text \<open>A cacheable descriptor with a local function and a TTL of one minute.\<close>

definition example_config :: DescribedFunc where
  "example_config =
     \<lparr>name = ''lookup'', title = None, description = ''Looks a record up.'', tags = None,
      intents = Some resource, inputSchema = any_schema, resultSchema = any_schema,
      cache = Some 60000, clientCache = None,
      func = Some (const_func (JStr ''found'')), httpEndpoint = None,
      opt_validateInput = None, opt_validateResult = None\<rparr>"

text \<open>The instance that \<^verbatim>\<open>new ToolClass(example_config)\<close> builds.\<close>

definition example_tool :: ToolClass where
  "example_tool =
     \<lparr>config = example_config,
      callFunc = (\<lambda>input context w. const_func (JStr ''found'') input context),
      this_cache = CStore Keyv,
      keyFactory = default_keyFactory,
      compiledInputSchema = Some (\<lambda>v. []),
      compiledResultSchema = Some (\<lambda>v. []),
      own_validateInput = None,
      own_validateResult = None\<rparr>"

definition empty_store :: store_state where
  "empty_store = \<lparr>clock = 0, entries = Map.empty\<rparr>"

text \<open>A world in Node.js with empty stores, no events, and an unreachable network.\<close>

definition example_world :: world where
  "example_world =
     \<lparr>runtime = NodeJS True,
      makeRequest = (\<lambda>u data m. Inl (Error ''HTTP request failed'')),
      own_store = empty_store, passed_store = empty_store, trace = []\<rparr>"

definition example_input :: json where
  "example_input = JObj [(''id'', JNum 7)]"

definition no_cache_option :: InvokeToolOptions where
  "no_cache_option = \<lparr>options_cache = CUndefined, log = False\<rparr>"


text \<open>The key of the example: the input is serialized as \<^verbatim>\<open>{"json":{"id":7}}\<close>.\<close>

definition example_key :: string where
  "example_key = ''lookup:'' @ sha1_hex ''{\"json\":{\"id\":7}}''"

text \<open>The same descriptor with the intent \<^verbatim>\<open>action\<close>.\<close>

definition action_tool :: ToolClass where
  "action_tool = example_tool\<lparr>config := example_config\<lparr>intents := Some action\<rparr>\<rparr>"

text \<open>
  An action with a cache duration that is served by a remote endpoint, its instance,
  and a world in which the endpoint answers \<^verbatim>\<open>"remote"\<close>.
\<close>

definition remote_config :: DescribedFunc where
  "remote_config =
     example_config\<lparr>intents := Some action, func := None, httpEndpoint := Some example_endpoint\<rparr>"

definition remote_tool :: ToolClass where
  "remote_tool =
     example_tool\<lparr>config := remote_config,
                  callFunc := (\<lambda>input context w.
                     makeRequest w (url example_endpoint) input (Some (method' example_endpoint)))\<rparr>"

definition remote_world :: world where
  "remote_world =
     example_world\<lparr>makeRequest := (\<lambda>u data m.
        if u = ''https://example.org/lookup'' \<and> m = Some GET then Inr (JStr ''remote'')
        else Inl (Error ''HTTP request failed''))\<rparr>"

text \<open>A descriptor whose function returns the falsy value \<^verbatim>\<open>0\<close>, and its instance.\<close>

definition zero_config :: DescribedFunc where
  "zero_config = example_config\<lparr>func := Some (const_func (JNum 0))\<rparr>"

definition zero_tool :: ToolClass where
  "zero_tool =
     example_tool\<lparr>config := zero_config,
                  callFunc := (\<lambda>input context w. const_func (JNum 0) input context)\<rparr>"

text \<open>A world whose own store already holds \<^verbatim>\<open>0\<close> under the key of the example.\<close>

definition stale_world :: world where
  "stale_world =
     example_world\<lparr>own_store := \<lparr>clock = 0, entries = [example_key \<mapsto> (JNum 0, Some 60000)]\<rparr>\<rparr>"

text \<open>Two stores, one whose \<^verbatim>\<open>set\<close> rejects and one whose \<^verbatim>\<open>get\<close> rejects.\<close>

definition write_failing_store :: ICache where
  "write_failing_store =
     \<lparr>get = Keyv_get, set' = (\<lambda>key v ttl s. (Inl (Error ''store unavailable''), s))\<rparr>"

definition read_failing_store :: ICache where
  "read_failing_store =
     \<lparr>get = (\<lambda>key s. (Inl (Error ''store unavailable''), s)), set' = Keyv_set\<rparr>"

definition store_option :: "ICache \<Rightarrow> InvokeToolOptions" where
  "store_option c = \<lparr>options_cache = CStore c, log = True\<rparr>"

text \<open>
  An input schema with two independent constraints: \<^verbatim>\<open>name\<close> is a required string,
  \<^verbatim>\<open>age\<close> an optional number.  \<open>person_check\<close> lists what the compiled validator
  of the schema library enumerates for a value.  A value that is no plain object is
  reported once.  For an object the validator first reports every required property
  that is missing; then it visits the known properties in the order of the schema, a
  required one whether present or not (so that a missing \<^verbatim>\<open>name\<close> is reported a second
  time, as \<^verbatim>\<open>undefined\<close> where a string is expected), an optional one when it is
  present.
\<close>

definition person_check :: TypeCheck where
  "person_check v =
     (case v of
        JObj kvs \<Rightarrow>
          (case map_of kvs ''name'' of
             None \<Rightarrow> [(''/name'', ''Expected required property'')]
           | Some present \<Rightarrow> []) @
          (case map_of kvs ''name'' of
             Some (JStr s) \<Rightarrow> []
           | other \<Rightarrow> [(''/name'', ''Expected string'')]) @
          (case map_of kvs ''age'' of
             None \<Rightarrow> []
           | Some (JNum n) \<Rightarrow> []
           | Some other \<Rightarrow> [(''/age'', ''Expected number'')])
      | other \<Rightarrow> [([], ''Expected object'')])"

definition person_config :: DescribedFunc where
  "person_config = example_config\<lparr>inputSchema := JSONSchemaRaw person_check\<rparr>"

definition person_tool :: ToolClass where
  "person_tool =
     example_tool\<lparr>config := example_config\<lparr>inputSchema := TSchema person_check\<rparr>,
                  compiledInputSchema := Some person_check\<rparr>"

text \<open>A descriptor without caching and with \<^verbatim>\<open>validateResult: false\<close>, and its instance.\<close>

definition unchecked_config :: DescribedFunc where
  "unchecked_config = example_config\<lparr>cache := None, opt_validateResult := Some False\<rparr>"

definition unchecked_tool :: ToolClass where
  "unchecked_tool = example_tool\<lparr>config := unchecked_config, compiledResultSchema := None\<rparr>"


section \<open>Evaluation\<close>

lemma expand_numeral:
  "expand (numeral k) ws =
     hd ws # expand (pred_numeral k) (tl ws @ [rotl 1 (ws ! 13 XOR ws ! 8 XOR ws ! 2 XOR ws ! 0)])"
  by (simp add: numeral_eq_Suc)

lemma replicate_numeral_Cons: "replicate (numeral k) x = x # replicate (pred_numeral k) x"
  by (simp add: numeral_eq_Suc)

lemmas sha1_eval =
  sha1_hex_def sha1_def sha1_block_def sha1_pad_def be64_def expand_numeral rotl_def
  replicate_numeral_Cons sha1_f_def sha1_k_def hex_word_def hex_digit_def

lemmas stringify_eval =
  SuperJSON_stringify_def quote_def escape_char_def show_int_def show_nat.simps dec_digit_def
  Object_entries_def index_key_def index_value_def array_index_def parse_nat_def reserved_def
  Let_def

text \<open>The model of SHA-1 reproduces the test vector of FIPS 180 for the message \<open>abc\<close>.\<close>

lemma sha1_hex_abc: "sha1_hex ''abc'' = ''a9993e364706816aba3e25717850c26c9cd0d89d''"
  by (simp add: sha1_eval)

lemma stringify_ab:
  "SuperJSON_stringify (JObj [(''a'', JNum 1), (''b'', JNum 2)]) = Inr ''{\"json\":{\"a\":1,\"b\":2}}''"
  by (simp add: stringify_eval)

lemma stringify_ba:
  "SuperJSON_stringify (JObj [(''b'', JNum 2), (''a'', JNum 1)]) = Inr ''{\"json\":{\"b\":2,\"a\":1}}''"
  by (simp add: stringify_eval)

text \<open>
  Keys that are array indices are enumerated first and in ascending order, wherever
  they were created; a property with a reserved name makes the serialization throw.
\<close>

lemma stringify_index_keys:
  "SuperJSON_stringify (JObj [(''b'', JNum 2), (''10'', JNum 1), (''9'', JNull), (''a'', JNum (- 3))]) =
     Inr ''{\"json\":{\"9\":null,\"10\":1,\"b\":2,\"a\":-3}}''"
  by (simp add: stringify_eval)

lemma stringify_reserved:
  "SuperJSON_stringify (JObj [(''b'', JArr [JObj [(''prototype'', JNull)]]), (''constructor'', JNull)]) =
     Inl (pollution_error ''prototype'')"
  by (simp add: stringify_eval)

lemma sha1_hex_ab:
  "sha1_hex ''{\"json\":{\"a\":1,\"b\":2}}'' = ''d30fee931e4c189148e7c39028f90712d906f7d1''"
  by (simp add: sha1_eval)

lemma sha1_hex_ba:
  "sha1_hex ''{\"json\":{\"b\":2,\"a\":1}}'' = ''a3b267baa3eca1a8fdab6e79a768c0e027f2766d''"
  by (simp add: sha1_eval)

section \<open>The digest is forty lowercase hexadecimal digits\<close>

lemma length_sha1: "length (sha1 msg) = 5"
  by (cases "sha1_blocks (0x67452301, 0xEFCDAB89, 0x98BADCFE, 0x10325476, 0xC3D2E1F0) (sha1_pad msg)")
     (simp add: sha1_def)

lemma length_hex_word: "length (hex_word w) = 8"
  by (simp add: hex_word_def)

lemma hex_digit_range: "n < 16 \<Longrightarrow> hex_digit n \<in> set ''0123456789abcdef''"
  unfolding hex_digit_def by (rule nth_mem) simp

lemma nibble_less: "unat (take_bit 4 (x :: w32)) < 16"
proof -
  have "take_bit 4 (unat x) < 2 ^ 4" by (rule take_bit_nat_less_exp)
  then show ?thesis by (simp add: unsigned_take_bit_eq)
qed

lemma set_concat_map_subset:
  "(\<And>x. set (f x) \<subseteq> S) \<Longrightarrow> set (concat (map f xs)) \<subseteq> S"
  by (induction xs) auto

lemma set_map_subset: "(\<And>x. f x \<in> S) \<Longrightarrow> set (map f xs) \<subseteq> S"
  by auto

lemma set_hex_word: "set (hex_word w) \<subseteq> set ''0123456789abcdef''"
  unfolding hex_word_def by (rule set_map_subset) (rule hex_digit_range[OF nibble_less])

lemma sha1_hex_format:
  "length (sha1_hex s) = 40 \<and> set (sha1_hex s) \<subseteq> set ''0123456789abcdef''"
proof
  have "length (sha1_hex s) = sum_list (map (\<lambda>w. 8) (sha1 (map of_char s)))"
    by (simp add: sha1_hex_def length_concat comp_def length_hex_word)
  also have "\<dots> = 8 * length (sha1 (map of_char s))"
    by (simp add: sum_list_triv)
  finally show "length (sha1_hex s) = 40" by (simp add: length_sha1)
  show "set (sha1_hex s) \<subseteq> set ''0123456789abcdef''"
    unfolding sha1_hex_def by (rule set_concat_map_subset[OF set_hex_word])
qed

section \<open>Cache key and key order\<close>

subsection \<open>The enumeration of an object\<close>

lemma set_Object_entries [simp]: "set (Object_entries kvs) = set kvs"
  by (auto simp: Object_entries_def)

lemma length_Object_entries [simp]: "length (Object_entries kvs) = length kvs"
  by (simp add: Object_entries_def sum_length_filter_compl)

lemma distinct_keys_Object_entries:
  assumes "distinct (map fst kvs)"
  shows "distinct (map fst (Object_entries kvs))"
proof -
  have "card (set (map fst kvs)) = length kvs"
    using assms distinct_card[of "map fst kvs"] by simp
  then have "card (set (map fst (Object_entries kvs))) = length (map fst (Object_entries kvs))"
    by simp
  then show ?thesis by (rule card_distinct)
qed

lemma map_of_Object_entries:
  assumes "distinct (map fst kvs)"
  shows "map_of (Object_entries kvs) = map_of kvs"
  using assms distinct_keys_Object_entries[OF assms]
  by (simp add: map_of_inject_set)

lemma same_keys_length:
  assumes "distinct (map fst xs)" "distinct (map fst ys)" "set (map fst xs) = set (map fst ys)"
  shows "length xs = length ys"
  using assms distinct_card[of "map fst xs"] distinct_card[of "map fst ys"] by simp

subsection \<open>Reading a serialization from the left\<close>

lemma hex_digit_inj: "a < 16 \<Longrightarrow> b < 16 \<Longrightarrow> hex_digit a = hex_digit b \<Longrightarrow> a = b"
proof -
  assume a: "a < 16" and b: "b < 16" and e: "hex_digit a = hex_digit b"
  have d: "distinct ''0123456789abcdef''" by simp
  have "a < length ''0123456789abcdef''" "b < length ''0123456789abcdef''" using a b by simp_all
  then show "a = b" using e d unfolding hex_digit_def by (simp only: nth_eq_iff_index_eq)
qed

lemma escape_char_prefix:
  assumes "escape_char c @ s = escape_char d @ t"
  shows "c = d \<and> s = t"
proof -
  have u: "c = d"
    if "hex_digit (of_char c div 16) = hex_digit (of_char d div 16)"
      and "hex_digit (of_char c mod 16) = hex_digit (of_char d mod 16)"
      and "(of_char c :: nat) < 32" and "(of_char d :: nat) < 32"
  proof -
    have "(of_char c :: nat) div 16 = of_char d div 16"
      using that by (intro hex_digit_inj) simp_all
    moreover have "(of_char c :: nat) mod 16 = of_char d mod 16"
      using that by (intro hex_digit_inj) simp_all
    ultimately have "(of_char c :: nat) = of_char d"
      by (metis div_mult_mod_eq)
    then show ?thesis by simp
  qed
  show ?thesis
    using assms u unfolding escape_char_def
    by (auto split: if_splits)
qed

lemma escape_char_hd: "\<exists>x xs. escape_char c = x # xs \<and> x \<noteq> CHR 0x22"
  unfolding escape_char_def by auto

lemma escaped_body_inj:
  assumes "concat (map escape_char k) @ CHR 0x22 # r = concat (map escape_char k') @ CHR 0x22 # r'"
  shows "k = k' \<and> r = r'"
  using assms
proof (induction k arbitrary: k')
  case Nil
  show ?case
  proof (cases k')
    case Nil
    then show ?thesis using Nil.prems by simp
  next
    case (Cons d ds)
    obtain x xs where "escape_char d = x # xs" "x \<noteq> CHR 0x22"
      using escape_char_hd by blast
    then show ?thesis using Nil.prems Cons by simp
  qed
next
  case (Cons c cs)
  show ?case
  proof (cases k')
    case Nil
    obtain x xs where "escape_char c = x # xs" "x \<noteq> CHR 0x22"
      using escape_char_hd by blast
    then show ?thesis using Cons.prems Nil by simp
  next
    case (Cons d ds)
    have "escape_char c @ (concat (map escape_char cs) @ CHR 0x22 # r) =
          escape_char d @ (concat (map escape_char ds) @ CHR 0x22 # r')"
      using Cons.prems Cons by simp
    then have cd: "c = d"
      and rest: "concat (map escape_char cs) @ CHR 0x22 # r = concat (map escape_char ds) @ CHR 0x22 # r'"
      using escape_char_prefix by blast+
    show ?thesis using Cons.IH[OF rest] cd Cons by simp
  qed
qed

lemma quote_inj:
  assumes "quote k @ r = quote k' @ r'"
  shows "k = k' \<and> r = r'"
  using assms escaped_body_inj[of k r k' r'] by (simp add: quote_def)

lemma join_Cons: "join sep (x # xs) = (if xs = [] then x else x @ sep @ join sep xs)"
  by (cases xs) simp_all

lemma members_inj:
  assumes "length xs = length ys"
    and "\<And>x y r r'. x \<in> set xs \<Longrightarrow> y \<in> set ys \<Longrightarrow> fst x = fst y \<Longrightarrow>
           JSON_stringify (snd x) @ r = JSON_stringify (snd y) @ r' \<Longrightarrow> Q (snd x) (snd y) \<and> r = r'"
    and "join '','' (map member xs) @ r = join '','' (map member ys) @ r'"
  shows "map fst xs = map fst ys \<and> list_all2 (\<lambda>x y. Q (snd x) (snd y)) xs ys \<and> r = r'"
  using assms
proof (induction xs ys arbitrary: r r' rule: list_induct2)
  case Nil
  then show ?case by simp
next
  case (Cons x xs y ys)
  let ?tx = "(if xs = [] then [] else '','' @ join '','' (map member xs)) @ r"
  let ?ty = "(if ys = [] then [] else '','' @ join '','' (map member ys)) @ r'"
  have e: "ys = [] \<longleftrightarrow> xs = []" using Cons.hyps by auto
  have m: "member x @ ?tx = member y @ ?ty"
    using Cons.prems(2) e by (cases "xs = []") (simp_all add: join_Cons)
  have "quote (fst x) @ ('':'' @ JSON_stringify (snd x) @ ?tx) =
        quote (fst y) @ ('':'' @ JSON_stringify (snd y) @ ?ty)"
    using m by (simp add: member_def)
  then have "fst x = fst y \<and> '':'' @ JSON_stringify (snd x) @ ?tx = '':'' @ JSON_stringify (snd y) @ ?ty"
    by (rule quote_inj)
  then have k: "fst x = fst y" and v: "JSON_stringify (snd x) @ ?tx = JSON_stringify (snd y) @ ?ty"
    by simp_all
  have q: "Q (snd x) (snd y)" and t: "?tx = ?ty"
    using Cons.prems(1)[of x y ?tx ?ty] k v by simp_all
  show ?case
  proof (cases "xs = []")
    case True
    then show ?thesis using e t k q by simp
  next
    case False
    then have j: "join '','' (map member xs) @ r = join '','' (map member ys) @ r'"
      using t e by simp
    have "map fst xs = map fst ys \<and> list_all2 (\<lambda>x y. Q (snd x) (snd y)) xs ys \<and> r = r'"
    proof (rule Cons.IH[OF _ j])
      fix a b s s'
      assume "a \<in> set xs" "b \<in> set ys" "fst a = fst b"
        "JSON_stringify (snd a) @ s = JSON_stringify (snd b) @ s'"
      then show "Q (snd a) (snd b) \<and> s = s'"
        using Cons.prems(1)[of a b s s'] by simp
    qed
    then show ?thesis using k q by simp
  qed
qed

lemma elements_inj:
  assumes "list_all2 (\<lambda>x y. \<forall>r r'. JSON_stringify x @ r = JSON_stringify y @ r' \<longrightarrow> Q x y \<and> r = r') xs ys"
    and "join '','' (map JSON_stringify xs) @ r = join '','' (map JSON_stringify ys) @ r'"
  shows "list_all2 Q xs ys \<and> r = r'"
  using assms
proof (induction xs ys arbitrary: r r' rule: list_all2_induct)
  case Nil
  then show ?case by simp
next
  case (Cons x xs y ys)
  let ?tx = "(if xs = [] then [] else '','' @ join '','' (map JSON_stringify xs)) @ r"
  let ?ty = "(if ys = [] then [] else '','' @ join '','' (map JSON_stringify ys)) @ r'"
  have e: "ys = [] \<longleftrightarrow> xs = []" using Cons.hyps(2) by (auto dest: list_all2_lengthD)
  have v: "JSON_stringify x @ ?tx = JSON_stringify y @ ?ty"
    using Cons.prems e by (cases "xs = []") (simp_all add: join_Cons)
  have q: "Q x y" and t: "?tx = ?ty"
    using Cons.hyps(1) v by blast+
  show ?case
  proof (cases "xs = []")
    case True
    then show ?thesis using e t q by simp
  next
    case False
    then have j: "join '','' (map JSON_stringify xs) @ r = join '','' (map JSON_stringify ys) @ r'"
      using t e by simp
    have "list_all2 Q xs ys \<and> r = r'"
      by (rule Cons.IH[OF j])
    then show ?thesis using q by simp
  qed
qed

subsection \<open>Structurally equal values\<close>

lemma stringify_struct_eq:
  "wf_json a \<Longrightarrow> wf_json b \<Longrightarrow> struct_eq a b \<Longrightarrow>
     (same_key_order a b \<longrightarrow> JSON_stringify a = JSON_stringify b) \<and>
     (\<forall>r r'. JSON_stringify a @ r = JSON_stringify b @ r' \<longrightarrow> same_key_order a b \<and> r = r')"
proof (induction a b rule: struct_eq.induct)
  case (1 xs ys)
  have len: "length xs = length ys"
    using "1.prems"(3) by (simp add: list_all2_lengthD)
  have el: "(same_key_order (xs ! i) (ys ! i) \<longrightarrow> JSON_stringify (xs ! i) = JSON_stringify (ys ! i)) \<and>
     (\<forall>r r'. JSON_stringify (xs ! i) @ r = JSON_stringify (ys ! i) @ r' \<longrightarrow>
        same_key_order (xs ! i) (ys ! i) \<and> r = r')" if i: "i < length xs" for i
  proof -
    have a: "xs ! i \<in> set xs" and b: "ys ! i \<in> set ys" using i len by simp_all
    have w1: "wf_json (xs ! i)" using "1.prems"(1) a by (simp add: list_all_iff)
    have w2: "wf_json (ys ! i)" using "1.prems"(2) b by (simp add: list_all_iff)
    have se: "struct_eq (xs ! i) (ys ! i)"
      using "1.prems"(3) i by (simp add: list_all2_conv_all_nth)
    show ?thesis by (rule "1.IH"[OF a b w1 w2 se])
  qed
  have fwd: "JSON_stringify (JArr xs) = JSON_stringify (JArr ys)" if "same_key_order (JArr xs) (JArr ys)"
  proof -
    have "map JSON_stringify xs = map JSON_stringify ys"
    proof (rule nth_equalityI)
      show "length (map JSON_stringify xs) = length (map JSON_stringify ys)" using len by simp
      fix i assume "i < length (map JSON_stringify xs)"
      then have i: "i < length xs" by simp
      have "same_key_order (xs ! i) (ys ! i)"
        using that i by (simp add: list_all2_conv_all_nth)
      then have "JSON_stringify (xs ! i) = JSON_stringify (ys ! i)"
        using el[OF i] by blast
      then show "map JSON_stringify xs ! i = map JSON_stringify ys ! i"
        using i len by simp
    qed
    then show ?thesis by simp
  qed
  have bwd: "same_key_order (JArr xs) (JArr ys) \<and> r = r'"
    if eq: "JSON_stringify (JArr xs) @ r = JSON_stringify (JArr ys) @ r'" for r r'
  proof -
    have j: "join '','' (map JSON_stringify xs) @ ('']'' @ r) =
             join '','' (map JSON_stringify ys) @ ('']'' @ r')"
      using eq by simp
    have h: "list_all2 (\<lambda>x y. \<forall>r r'. JSON_stringify x @ r = JSON_stringify y @ r' \<longrightarrow>
                same_key_order x y \<and> r = r') xs ys"
    proof (rule list_all2_all_nthI)
      show "length xs = length ys" by (rule len)
      fix n assume "n < length xs"
      then show "\<forall>r r'. JSON_stringify (xs ! n) @ r = JSON_stringify (ys ! n) @ r' \<longrightarrow>
                same_key_order (xs ! n) (ys ! n) \<and> r = r'"
        using el by blast
    qed
    have "list_all2 same_key_order xs ys \<and> '']'' @ r = '']'' @ r'"
      by (rule elements_inj[OF h j])
    then show ?thesis by simp
  qed
  show ?case using fwd bwd by blast
next
  case (2 xs ys)
  let ?xs = "Object_entries xs" and ?ys = "Object_entries ys"
  have dx: "distinct (map fst xs)" and dy: "distinct (map fst ys)"
    using "2.prems"(1,2) by simp_all
  have keys: "set (map fst xs) = set (map fst ys)" using "2.prems"(3) by simp
  have len: "length ?xs = length ?ys"
    using same_keys_length[OF dx dy keys] by simp
  have pair: "(same_key_order (snd x) (snd y) \<longrightarrow> JSON_stringify (snd x) = JSON_stringify (snd y)) \<and>
     (\<forall>r r'. JSON_stringify (snd x) @ r = JSON_stringify (snd y) @ r' \<longrightarrow>
        same_key_order (snd x) (snd y) \<and> r = r')"
    and look: "map_of ys (fst x) = Some (snd y)"
    if x: "x \<in> set xs" and y: "y \<in> set ys" and k: "fst x = fst y" for x y
  proof -
    have "map_of ys (fst y) = Some (snd y)" using dy y by simp
    then show l: "map_of ys (fst x) = Some (snd y)" using k by simp
    have w1: "wf_json (snd x)" using "2.prems"(1) x by (simp add: list_all_iff)
    have w2: "wf_json (snd y)" using "2.prems"(2) y by (simp add: list_all_iff)
    have se: "struct_eq (snd x) (snd y)"
      using "2.prems"(3) x l by (auto simp: list_all_iff)
    show "(same_key_order (snd x) (snd y) \<longrightarrow> JSON_stringify (snd x) = JSON_stringify (snd y)) \<and>
     (\<forall>r r'. JSON_stringify (snd x) @ r = JSON_stringify (snd y) @ r' \<longrightarrow>
        same_key_order (snd x) (snd y) \<and> r = r')"
      by (rule "2.IH"[OF x l w1 w2 se])
  qed
  have fwd: "JSON_stringify (JObj xs) = JSON_stringify (JObj ys)" if s: "same_key_order (JObj xs) (JObj ys)"
  proof -
    have ks: "map fst ?xs = map fst ?ys" using s by (simp add: Object_keys_def)
    have "map member ?xs = map member ?ys"
    proof (rule nth_equalityI)
      show "length (map member ?xs) = length (map member ?ys)" using len by simp
      fix i assume "i < length (map member ?xs)"
      then have i: "i < length ?xs" and i': "i < length ?ys" using len by simp_all
      have x: "?xs ! i \<in> set xs" using i nth_mem[OF i] by simp
      have y: "?ys ! i \<in> set ys" using i' nth_mem[OF i'] by simp
      have k: "fst (?xs ! i) = fst (?ys ! i)"
        using ks i i' by (metis nth_map)
      have "same_key_order (snd (?xs ! i)) (snd (?ys ! i))"
        using s x look[OF x y k] by (auto simp: list_all_iff)
      then have "JSON_stringify (snd (?xs ! i)) = JSON_stringify (snd (?ys ! i))"
        using pair[OF x y k] by blast
      then show "map member ?xs ! i = map member ?ys ! i"
        using k i i' by (simp add: member_def)
    qed
    then show ?thesis by (simp add: member_def[abs_def])
  qed
  have bwd: "same_key_order (JObj xs) (JObj ys) \<and> r = r'"
    if eq: "JSON_stringify (JObj xs) @ r = JSON_stringify (JObj ys) @ r'" for r r'
  proof -
    have j: "join '','' (map member ?xs) @ (''}'' @ r) = join '','' (map member ?ys) @ (''}'' @ r')"
      using eq by (simp add: member_def[abs_def])
    have m: "map fst ?xs = map fst ?ys \<and>
        list_all2 (\<lambda>x y. same_key_order (snd x) (snd y)) ?xs ?ys \<and> ''}'' @ r = ''}'' @ r'"
    proof (rule members_inj[OF len _ j])
      fix x y s s'
      assume xy: "x \<in> set ?xs" "y \<in> set ?ys" and k: "fst x = fst y"
        and e: "JSON_stringify (snd x) @ s = JSON_stringify (snd y) @ s'"
      have x: "x \<in> set xs" and y: "y \<in> set ys" using xy by simp_all
      show "same_key_order (snd x) (snd y) \<and> s = s'"
        using pair[OF x y k] e by blast
    qed
    have "case map_of ys (fst kv) of None \<Rightarrow> True | Some v \<Rightarrow> same_key_order (snd kv) v"
      if kv: "kv \<in> set xs" for kv
    proof -
      obtain i where i: "i < length ?xs" and xi: "?xs ! i = kv"
        using kv by (metis in_set_conv_nth set_Object_entries)
      have i': "i < length ?ys" using i len by simp
      have y: "?ys ! i \<in> set ys" using nth_mem[OF i'] by simp
      have k: "fst kv = fst (?ys ! i)"
        using m i i' xi by (metis nth_map)
      have "same_key_order (snd kv) (snd (?ys ! i))"
        using m i xi by (auto simp: list_all2_conv_all_nth)
      then show ?thesis using look[OF kv y k] by simp
    qed
    then have "same_key_order (JObj xs) (JObj ys)"
      using m by (simp add: Object_keys_def list_all_iff)
    then show ?thesis using m by simp
  qed
  show ?case using fwd bwd by blast
qed auto


subsection \<open>Reserved property names\<close>

lemma first_some_None: "first_some xs = None \<longleftrightarrow> (\<forall>x\<in>set xs. x = None)"
  by (induction xs rule: first_some.induct) auto

lemma first_some_Some: "first_some xs = Some k \<Longrightarrow> Some k \<in> set xs"
  by (induction xs rule: first_some.induct) auto

lemma first_some_map_None: "first_some (map f xs) = None \<longleftrightarrow> (\<forall>x\<in>set xs. f x = None)"
  by (simp add: first_some_None)

lemma walker_None_iff: "walker v = None \<longleftrightarrow> \<not> has_reserved_key v"
proof (induction v rule: walker.induct)
  case (1 xs)
  then show ?case by (auto simp: first_some_None list_ex_iff)
next
  case (2 kvs)
  have "(if reserved (fst kv) then Some (fst kv) else walker (snd kv)) = None \<longleftrightarrow>
        \<not> (reserved (fst kv) \<or> has_reserved_key (snd kv))" if "kv \<in> set (Object_entries kvs)" for kv
    using "2.IH"[OF that] by simp
  then have "(\<forall>kv\<in>set (Object_entries kvs).
                (if reserved (fst kv) then Some (fst kv) else walker (snd kv)) = None) \<longleftrightarrow>
             (\<forall>kv\<in>set (Object_entries kvs). \<not> (reserved (fst kv) \<or> has_reserved_key (snd kv)))"
    by blast
  then show ?case
    by (simp only: walker.simps has_reserved_key.simps first_some_map_None list_ex_iff
        set_Object_entries) blast
qed simp_all

lemma walker_reserved: "walker v = Some k \<Longrightarrow> reserved k"
proof (induction v arbitrary: k rule: walker.induct)
  case (1 xs)
  then obtain x where "x \<in> set xs" "walker x = Some k"
    using first_some_Some[of "map walker xs" k] by auto
  then show ?case using "1.IH" by blast
next
  case (2 kvs)
  then have "Some k \<in> set (map (\<lambda>kv. if reserved (fst kv) then Some (fst kv) else walker (snd kv))
                               (Object_entries kvs))"
    by (intro first_some_Some) simp
  then obtain kv where kv: "kv \<in> set (Object_entries kvs)"
    and k: "(if reserved (fst kv) then Some (fst kv) else walker (snd kv)) = Some k"
    by auto
  show ?case
  proof (cases "reserved (fst kv)")
    case True
    then show ?thesis using k by simp
  next
    case False
    then show ?thesis using k "2.IH"[OF kv False] by simp
  qed
qed simp_all

lemma struct_eq_reserved:
  "wf_json a \<Longrightarrow> wf_json b \<Longrightarrow> struct_eq a b \<Longrightarrow> has_reserved_key a = has_reserved_key b"
proof (induction a b rule: struct_eq.induct)
  case (1 xs ys)
  have len: "length xs = length ys"
    using "1.prems"(3) by (simp add: list_all2_lengthD)
  have el: "has_reserved_key (xs ! i) = has_reserved_key (ys ! i)" if i: "i < length xs" for i
  proof -
    have a: "xs ! i \<in> set xs" and b: "ys ! i \<in> set ys" using i len by simp_all
    have w1: "wf_json (xs ! i)" using "1.prems"(1) a by (simp add: list_all_iff)
    have w2: "wf_json (ys ! i)" using "1.prems"(2) b by (simp add: list_all_iff)
    have se: "struct_eq (xs ! i) (ys ! i)"
      using "1.prems"(3) i by (simp add: list_all2_conv_all_nth)
    show ?thesis by (rule "1.IH"[OF a b w1 w2 se])
  qed
  have "(\<exists>x\<in>set xs. has_reserved_key x) = (\<exists>y\<in>set ys. has_reserved_key y)"
    using el len by (metis in_set_conv_nth)
  then show ?case by (simp add: list_ex_iff)
next
  case (2 xs ys)
  have dx: "distinct (map fst xs)" and dy: "distinct (map fst ys)"
    using "2.prems"(1,2) by simp_all
  have keys: "set (map fst xs) = set (map fst ys)" using "2.prems"(3) by simp
  have pair: "has_reserved_key (snd x) = has_reserved_key (snd y)"
    if x: "x \<in> set xs" and y: "y \<in> set ys" and k: "fst x = fst y" for x y
  proof -
    have "map_of ys (fst y) = Some (snd y)" using dy y by simp
    then have l: "map_of ys (fst x) = Some (snd y)" using k by simp
    have w1: "wf_json (snd x)" using "2.prems"(1) x by (simp add: list_all_iff)
    have w2: "wf_json (snd y)" using "2.prems"(2) y by (simp add: list_all_iff)
    have se: "struct_eq (snd x) (snd y)"
      using "2.prems"(3) x l by (auto simp: list_all_iff)
    show ?thesis by (rule "2.IH"[OF x l w1 w2 se])
  qed
  have xy: "\<exists>y\<in>set ys. fst x = fst y" if "x \<in> set xs" for x
  proof -
    have "fst x \<in> set (map fst ys)" using that keys by (metis image_eqI set_map)
    then obtain y where "y \<in> set ys" "fst x = fst y" by auto
    then show ?thesis by blast
  qed
  have yx: "\<exists>x\<in>set xs. fst x = fst y" if "y \<in> set ys" for y
  proof -
    have "fst y \<in> set (map fst xs)" using that keys by (metis image_eqI set_map)
    then obtain x where "x \<in> set xs" "fst y = fst x" by auto
    then show ?thesis by (metis (no_types))
  qed
  have "(\<exists>x\<in>set xs. reserved (fst x) \<or> has_reserved_key (snd x)) =
        (\<exists>y\<in>set ys. reserved (fst y) \<or> has_reserved_key (snd y))"
    using pair xy yx by metis
  then show ?case by (simp add: list_ex_iff)
qed auto


subsection \<open>The derived key\<close>

lemma stringify_envelope:
  "JSON_stringify (JObj [(''json'', v)]) = ''{\"json\":'' @ JSON_stringify v @ ''}''"
  by (simp add: stringify_eval)

lemma SuperJSON_stringify_plain:
  assumes "\<not> has_reserved_key v"
  shows "SuperJSON_stringify v = Inr (''{\"json\":'' @ JSON_stringify v @ ''}'')"
proof -
  have "walker v = None" using assms by (simp add: walker_None_iff)
  then show ?thesis by (simp only: SuperJSON_stringify_def stringify_envelope option.case)
qed

lemma SuperJSON_stringify_reserved:
  assumes "has_reserved_key v"
  shows "\<exists>k. reserved k \<and> SuperJSON_stringify v = Inl (pollution_error k)"
proof -
  obtain k where k: "walker v = Some k"
    using assms walker_None_iff[of v] by (cases "walker v") auto
  then show ?thesis using walker_reserved[OF k] by (auto simp: SuperJSON_stringify_def)
qed

lemma SuperJSON_stringify_struct_eq:
  assumes "wf_json a" and "wf_json b" and "struct_eq a b" and "\<not> has_reserved_key a"
  shows "\<exists>sa sb. SuperJSON_stringify a = Inr sa \<and> SuperJSON_stringify b = Inr sb \<and>
           (sa = sb \<longleftrightarrow> same_key_order a b)"
proof -
  have nb: "\<not> has_reserved_key b"
    using assms struct_eq_reserved by blast
  note s = stringify_struct_eq[OF assms(1-3)]
  have "JSON_stringify a @ ''}'' = JSON_stringify b @ ''}'' \<longleftrightarrow> same_key_order a b"
  proof
    assume "JSON_stringify a @ ''}'' = JSON_stringify b @ ''}''"
    then show "same_key_order a b" using s by blast
  next
    assume "same_key_order a b"
    then have "JSON_stringify a = JSON_stringify b" using s by blast
    then show "JSON_stringify a @ ''}'' = JSON_stringify b @ ''}''" by simp
  qed
  then have "''{\"json\":'' @ JSON_stringify a @ ''}'' = ''{\"json\":'' @ JSON_stringify b @ ''}'' \<longleftrightarrow>
        same_key_order a b"
    by simp
  then show ?thesis
    using SuperJSON_stringify_plain[OF assms(4)] SuperJSON_stringify_plain[OF nb] by blast
qed




section \<open>Worlds and frames\<close>

lemma emit_simps [simp]:
  "trace (emit ev w) = trace w @ [ev]"
  "own_store (emit ev w) = own_store w"
  "passed_store (emit ev w) = passed_store w"
  "runtime (emit ev w) = runtime w"
  "makeRequest (emit ev w) = makeRequest w"
  "store_of sl (emit ev w) = store_of sl w"
  by (cases sl; simp add: emit_def)+

lemma put_store_simps [simp]:
  "trace (put_store sl s w) = trace w"
  "runtime (put_store sl s w) = runtime w"
  "makeRequest (put_store sl s w) = makeRequest w"
  "store_of sl (put_store sl s w) = s"
  by (cases sl; simp)+

lemma put_store_same [simp]: "put_store sl (store_of sl w) w = w"
  by (cases sl) simp_all

lemma advance_simps [simp]:
  "trace (advance d w) = trace w"
  "runtime (advance d w) = runtime w"
  "makeRequest (advance d w) = makeRequest w"
  "store_of sl (advance d w) = (store_of sl w)\<lparr>clock := clock (store_of sl w) + d\<rparr>"
  by (cases sl; simp add: advance_def)+

lemma after_input_simps [simp]:
  "own_store (after_input this input w) = own_store w"
  "passed_store (after_input this input w) = passed_store w"
  "runtime (after_input this input w) = runtime w"
  "makeRequest (after_input this input w) = makeRequest w"
  "store_of sl (after_input this input w) = store_of sl w"
  "cache_accesses (trace (after_input this input w)) = cache_accesses (trace w)"
  "dispatches (trace (after_input this input w)) = dispatches (trace w)"
  by (simp_all add: after_input_def cache_accesses_def dispatches_def)

lemma own_accesses_snoc [simp]:
  "own_accesses (tr @ [ev]) = (if is_own_access ev then own_accesses tr @ [ev] else own_accesses tr)"
  by (simp add: own_accesses_def)

lemma validate_and_return_frame [simp]:
  "own_store (snd (validate_and_return this r w)) = own_store w"
  "passed_store (snd (validate_and_return this r w)) = passed_store w"
  "cache_accesses (trace (snd (validate_and_return this r w))) = cache_accesses (trace w)"
  "dispatches (trace (snd (validate_and_return this r w))) = dispatches (trace w)"
  by (auto simp: validate_and_return_def call_validateResult_def cache_accesses_def dispatches_def
      split: option.splits sum.splits)

lemma validate_and_return_more [simp]:
  "runtime (snd (validate_and_return this r w)) = runtime w"
  "store_of sl (snd (validate_and_return this r w)) = store_of sl w"
  by (cases sl; auto simp: validate_and_return_def call_validateResult_def
      split: option.splits sum.splits)+

lemma validate_and_return_trace:
  "\<exists>evs. trace (snd (validate_and_return this r w)) = trace w @ evs"
  by (auto simp: validate_and_return_def call_validateResult_def split: option.splits sum.splits)

lemma dispatch_frame [simp]:
  "own_store (snd (dispatch this input ctx w)) = own_store w"
  "passed_store (snd (dispatch this input ctx w)) = passed_store w"
  "cache_accesses (trace (snd (dispatch this input ctx w))) = cache_accesses (trace w)"
  "dispatches (trace (snd (dispatch this input ctx w))) = Suc (dispatches (trace w))"
  by (simp_all add: dispatch_def cache_accesses_def dispatches_def)

lemma call_validateInput_frame [simp]:
  "own_store (snd (call_validateInput this input w)) = own_store w"
  "passed_store (snd (call_validateInput this input w)) = passed_store w"
  "cache_accesses (trace (snd (call_validateInput this input w))) = cache_accesses (trace w)"
  "dispatches (trace (snd (call_validateInput this input w))) = dispatches (trace w)"
  by (auto simp: call_validateInput_def cache_accesses_def dispatches_def split: option.splits)

lemma invoke_uncached_frame [simp]:
  "own_store (snd (invoke_uncached this input ctx w)) = own_store w"
  "passed_store (snd (invoke_uncached this input ctx w)) = passed_store w"
  "cache_accesses (trace (snd (invoke_uncached this input ctx w))) = cache_accesses (trace w)"
  "dispatches (trace (snd (invoke_uncached this input ctx w))) = Suc (dispatches (trace w))"
proof -
  obtain r w1 where d: "dispatch this input ctx w = (r, w1)"
    by (cases "dispatch this input ctx w")
  have w1: "w1 = snd (dispatch this input ctx w)" using d by simp
  show "own_store (snd (invoke_uncached this input ctx w)) = own_store w"
    "passed_store (snd (invoke_uncached this input ctx w)) = passed_store w"
    "cache_accesses (trace (snd (invoke_uncached this input ctx w))) = cache_accesses (trace w)"
    "dispatches (trace (snd (invoke_uncached this input ctx w))) = Suc (dispatches (trace w))"
    unfolding invoke_uncached_def d by (cases r; simp add: w1)+
qed

section \<open>The paths of \<^verbatim>\<open>invoke\<close>\<close>

lemma invoke_accepted:
  assumes "input_accepted this input"
  shows "invoke this input ctx options w =
     (if caching_applies this options
      then invoke_cached this input ctx options (after_input this input w)
      else invoke_uncached this input ctx (after_input this input w))"
  using assms
  by (auto simp: invoke_def input_accepted_def after_input_def call_validateInput_def)

lemma invoke_ready:
  assumes "cache_ready this opts input w c sl key"
  shows "invoke this input ctx (Some opts) w =
     (case cache_get c sl key (after_input this input w) of
        (Inl e, w1) \<Rightarrow> (Inl e, w1)
      | (Inr None, w1) \<Rightarrow> invoke_miss this input ctx c sl key w1
      | (Inr (Some v), w1) \<Rightarrow>
          if truthy v then (Inr v, w1) else invoke_miss this input ctx c sl key w1)"
  using assms by (simp add: cache_ready_def invoke_accepted invoke_cached_def)

lemma cache_get_eq:
  assumes "get c key (store_of sl w) = (r, s1)"
  shows "cache_get c sl key w = (r, emit (CacheGet sl key) (put_store sl s1 w))"
  using assms by (simp add: cache_get_def)

lemma cache_set_eq:
  assumes "set' c key v ttl (store_of sl w) = (r, s1)"
  shows "cache_set c sl key v ttl w = (r, emit (CacheSet sl key v ttl) (put_store sl s1 w))"
  using assms by (simp add: cache_set_def)

lemma invoke_falsy:
  assumes ready: "cache_ready this opts input w c sl key"
    and get: "get c key (store_of sl w) = (Inr stored, s1)"
    and falsy: "\<not> truthy_opt stored"
  shows "invoke this input ctx (Some opts) w =
     invoke_miss this input ctx c sl key
       (emit (CacheGet sl key) (put_store sl s1 (after_input this input w)))"
proof -
  have g: "cache_get c sl key (after_input this input w) =
      (Inr stored, emit (CacheGet sl key) (put_store sl s1 (after_input this input w)))"
    using get by (simp add: cache_get_eq)
  show ?thesis
    using falsy unfolding invoke_ready[OF ready] g by (cases stored) simp_all
qed

lemma invoke_hit:
  assumes ready: "cache_ready this opts input w c sl key"
    and get: "get c key (store_of sl w) = (Inr (Some v), s1)"
    and truthy: "truthy v"
  shows "invoke this input ctx (Some opts) w =
     (Inr v, emit (CacheGet sl key) (put_store sl s1 (after_input this input w)))"
proof -
  have g: "cache_get c sl key (after_input this input w) =
      (Inr (Some v), emit (CacheGet sl key) (put_store sl s1 (after_input this input w)))"
    using get by (simp add: cache_get_eq)
  show ?thesis using truthy by (simp add: invoke_ready[OF ready] g)
qed

lemma invoke_miss_stored:
  assumes call: "callFunc this input ctx w = Inr result"
    and set: "set' c key result (cache (config this)) (store_of sl w) = (Inr b, s2)"
  shows "invoke_miss this input ctx c sl key w =
     validate_and_return this result
       (emit (CacheSet sl key result (cache (config this)))
          (put_store sl s2 (emit (Dispatch input ctx) w)))"
proof -
  have d: "dispatch this input ctx w = (Inr result, emit (Dispatch input ctx) w)"
    using call by (simp add: dispatch_def)
  have s: "cache_set c sl key result (cache (config this)) (emit (Dispatch input ctx) w) =
      (Inr b, emit (CacheSet sl key result (cache (config this)))
                (put_store sl s2 (emit (Dispatch input ctx) w)))"
    using set by (simp add: cache_set_eq)
  show ?thesis by (simp add: invoke_miss_def d s)
qed

lemma invoke_miss_trace:
  "\<exists>evs. trace (snd (invoke_miss this input ctx c sl key w)) = trace w @ evs"
proof -
  obtain r w1 where d: "dispatch this input ctx w = (r, w1)"
    by (cases "dispatch this input ctx w")
  have w1: "trace w1 = trace w @ [Dispatch input ctx]" using d by (auto simp: dispatch_def)
  show ?thesis
  proof (cases r)
    case (Inl e)
    then show ?thesis by (simp add: invoke_miss_def d w1)
  next
    case (Inr res)
    obtain r2 w2 where s: "cache_set c sl key res (cache (config this)) w1 = (r2, w2)"
      by (cases "cache_set c sl key res (cache (config this)) w1")
    have w2: "trace w2 = trace w1 @ [CacheSet sl key res (cache (config this))]"
      using s by (auto simp: cache_set_def split: prod.splits)
    show ?thesis
      using validate_and_return_trace[of this res w2]
      by (cases r2) (auto simp: invoke_miss_def d Inr s w1 w2)
  qed
qed

lemma Keyv_get_absent:
  "entries s key = None \<Longrightarrow> get Keyv key s = (Inr None, s)"
  by (simp add: Keyv_def Keyv_get_def)

lemma Keyv_get_live:
  "entries s key = Some (v, Some t) \<Longrightarrow> clock s \<le> t \<Longrightarrow> get Keyv key s = (Inr (Some v), s)"
  by (simp add: Keyv_def Keyv_get_def)

lemma Keyv_set_eq:
  "set' Keyv key v ttl s = (Inr True, s\<lparr>entries := (entries s)(key \<mapsto> (v, Keyv_expires ttl s))\<rparr>)"
  by (simp add: Keyv_def Keyv_set_def)

section \<open>The examples\<close>

lemma new_ToolClass_example: "new_ToolClass example_config = Inr example_tool"
  by (simp add: new_ToolClass_def example_config_def example_tool_def any_schema_def Let_def)

lemma makeTool_example:
  "makeTool example_config = Inr (example_tool\<lparr>this_cache := CNumber 60000\<rparr>)"
  by (simp add: makeTool_def new_ToolClass_example Object_assign_def)
     (simp add: example_tool_def example_config_def)

lemma new_ToolClass_zero: "new_ToolClass zero_config = Inr zero_tool"
  by (simp add: new_ToolClass_def zero_config_def zero_tool_def example_config_def
      example_tool_def any_schema_def Let_def)

lemma new_ToolClass_person: "new_ToolClass person_config = Inr person_tool"
  by (simp add: new_ToolClass_def person_config_def person_tool_def example_config_def
      example_tool_def any_schema_def Let_def)

lemma new_ToolClass_unchecked: "new_ToolClass unchecked_config = Inr unchecked_tool"
  by (simp add: new_ToolClass_def unchecked_config_def unchecked_tool_def example_config_def
      example_tool_def any_schema_def Let_def)

lemma new_ToolClass_action:
  "new_ToolClass (example_config\<lparr>intents := Some action\<rparr>) = Inr action_tool"
  by (simp add: new_ToolClass_def action_tool_def example_config_def example_tool_def
      any_schema_def Let_def)

lemma new_ToolClass_remote: "new_ToolClass remote_config = Inr remote_tool"
  by (simp add: new_ToolClass_def remote_config_def remote_tool_def example_config_def
      example_tool_def any_schema_def Let_def)

lemma makeTool_unchecked:
  "makeTool unchecked_config = Inr (unchecked_tool\<lparr>own_validateResult := Some False\<rparr>)"
  by (simp add: makeTool_def new_ToolClass_unchecked Object_assign_def)
     (simp add: unchecked_tool_def unchecked_config_def example_tool_def example_config_def)

lemma example_tool_simps [simp]:
  "config example_tool = example_config"
  "compiledInputSchema example_tool = Some (\<lambda>v. [])"
  "compiledResultSchema example_tool = Some (\<lambda>v. [])"
  "own_validateInput example_tool = None"
  "own_validateResult example_tool = None"
  "this_cache example_tool = CStore Keyv"
  "keyFactory example_tool = default_keyFactory"
  "callFunc example_tool input ctx w = Inr (JStr ''found'')"
  by (simp_all add: example_tool_def const_func_def)

lemma example_config_simps [simp]:
  "name example_config = ''lookup''"
  "intents example_config = Some resource"
  "cache example_config = Some 60000"
  "func example_config = Some (const_func (JStr ''found''))"
  "httpEndpoint example_config = None"
  "opt_validateInput example_config = None"
  "opt_validateResult example_config = None"
  by (simp_all add: example_config_def)

lemma example_world_simps [simp]:
  "runtime example_world = NodeJS True"
  "own_store example_world = empty_store"
  "passed_store example_world = empty_store"
  "trace example_world = []"
  by (simp_all add: example_world_def)

lemma zero_tool_simps [simp]:
  "config zero_tool = zero_config"
  "compiledInputSchema zero_tool = Some (\<lambda>v. [])"
  "compiledResultSchema zero_tool = Some (\<lambda>v. [])"
  "own_validateInput zero_tool = None"
  "own_validateResult zero_tool = None"
  "this_cache zero_tool = CStore Keyv"
  "keyFactory zero_tool = default_keyFactory"
  "callFunc zero_tool input ctx w = Inr (JNum 0)"
  "name zero_config = ''lookup''"
  "intents zero_config = Some resource"
  "cache zero_config = Some 60000"
  by (simp_all add: zero_tool_def zero_config_def example_tool_def const_func_def)

lemma stale_world_simps [simp]:
  "runtime stale_world = NodeJS True"
  "own_store stale_world = \<lparr>clock = 0, entries = [example_key \<mapsto> (JNum 0, Some 60000)]\<rparr>"
  "passed_store stale_world = empty_store"
  "trace stale_world = []"
  by (simp_all add: stale_world_def)

lemma validateInput_any [simp]:
  "compiledInputSchema this = Some (\<lambda>v. []) \<Longrightarrow> validateInput this input = Inr True"
  by (simp add: validateInput_def Errors_def)

lemma validateResult_any [simp]:
  "compiledResultSchema this = Some (\<lambda>v. []) \<Longrightarrow> validateResult this r = Inr True"
  by (simp add: validateResult_def Errors_def)

lemma stringify_example:
  "SuperJSON_stringify example_input = Inr ''{\"json\":{\"id\":7}}''"
  by (simp add: stringify_eval example_input_def)

lemma example_keyFactory:
  "default_keyFactory (NodeJS True) ''lookup'' example_input = Inr example_key"
  by (simp add: default_keyFactory_def hashObjectSHA1_def example_key_def stringify_example)

lemma example_ready_own:
  "cache_ready example_tool no_cache_option example_input example_world Keyv Own example_key"
  by (simp add: cache_ready_def caching_applies_def input_accepted_def resolve_cache_def
      no_cache_option_def example_keyFactory)

lemma example_ready_passed:
  "cache_ready example_tool (store_option c) example_input example_world c Passed example_key"
  by (simp add: cache_ready_def caching_applies_def input_accepted_def resolve_cache_def
      store_option_def example_keyFactory)

lemmas invoke_eval =
  invoke_def invoke_cached_def invoke_miss_def invoke_uncached_def validate_and_return_def
  call_validateInput_def call_validateResult_def validateInput_def validateResult_def
  Errors_def spread_def dispatch_def cache_get_def cache_set_def caching_applies_def
  resolve_cache_def emit_def Keyv_def Keyv_get_def Keyv_set_def Keyv_expires_def
  dispatches_def cache_accesses_def advance_def empty_store_def


section \<open>Failures of the cache store\<close>

text \<open>
  Claim C2 as stated does not hold.  A store whose \<^verbatim>\<open>set\<close> rejects is passed in the
  options; the lookup misses and the function returns \<^verbatim>\<open>"found"\<close>, yet
  \<^verbatim>\<open>invoke\<close> rejects with the error of the store instead of returning the result: the
  statement \<^verbatim>\<open>await cache.set(...)\<close> stands in no \<^verbatim>\<open>try\<close> block.
\<close>

theorem cache_write_failure_counterexample:
  "callFunc example_tool example_input JNull example_world = Inr (JStr ''found'') \<and>
   fst (invoke example_tool example_input JNull (Some (store_option write_failing_store)) example_world)
     = Inl (Error ''store unavailable'') \<and>
   trace (snd (invoke example_tool example_input JNull
     (Some (store_option write_failing_store)) example_world)) =
     [ValidateInput example_input, CacheGet Passed example_key, Dispatch example_input JNull,
      CacheSet Passed example_key (JStr ''found'') (Some 60000)]"
  by (simp add: invoke_eval example_keyFactory store_option_def write_failing_store_def)

text \<open>
  Claim C2, amended: for every invocation where caching applies and the lookup misses
  (the store returns nothing or a falsy value), if the dispatch succeeds but the write
  to the store rejects, then \<^verbatim>\<open>invoke\<close> rejects with the error of the store; the
  computed result is not returned and not validated, and nothing is written to the
  logger: the events of the invocation end with the lookup, the dispatch and the
  failed write.
\<close>

theorem cache_write_failure_propagates:
  assumes ready: "cache_ready this opts input w c sl key"
    and get: "get c key (store_of sl w) = (Inr stored, s1)"
    and falsy: "\<not> truthy_opt stored"
    and call: "callFunc this input ctx
                 (emit (CacheGet sl key) (put_store sl s1 (after_input this input w))) = Inr result"
    and set: "set' c key result (cache (config this)) s1 = (Inl e, s2)"
  shows "fst (invoke this input ctx (Some opts) w) = Inl e \<and>
         trace (snd (invoke this input ctx (Some opts) w)) =
           trace (after_input this input w) @
             [CacheGet sl key, Dispatch input ctx, CacheSet sl key result (cache (config this))]"
proof -
  let ?w1 = "emit (CacheGet sl key) (put_store sl s1 (after_input this input w))"
  have d: "dispatch this input ctx ?w1 = (Inr result, emit (Dispatch input ctx) ?w1)"
    using call by (simp add: dispatch_def)
  have s: "cache_set c sl key result (cache (config this)) (emit (Dispatch input ctx) ?w1) =
      (Inl e, emit (CacheSet sl key result (cache (config this)))
                (put_store sl s2 (emit (Dispatch input ctx) ?w1)))"
    using set by (simp add: cache_set_eq)
  show ?thesis
    by (simp add: invoke_falsy[OF ready get falsy] invoke_miss_def d s)
qed

lemma write_failing_get:
  "get write_failing_store example_key (store_of Passed example_world) = (Inr None, empty_store)"
  by (simp add: write_failing_store_def Keyv_get_def empty_store_def)

lemma write_failing_set:
  "set' write_failing_store key v ttl s = (Inl (Error ''store unavailable''), s)"
  by (simp add: write_failing_store_def)

theorem cache_write_failure_propagates_witness:
  "fst (invoke example_tool example_input JNull (Some (store_option write_failing_store)) example_world)
     = Inl (Error ''store unavailable'') \<and>
   trace (snd (invoke example_tool example_input JNull
     (Some (store_option write_failing_store)) example_world)) =
     trace (after_input example_tool example_input example_world) @
       [CacheGet Passed example_key, Dispatch example_input JNull,
        CacheSet Passed example_key (JStr ''found'') (cache (config example_tool))]"
proof -
  have falsy: "\<not> truthy_opt None" by simp
  have call: "callFunc example_tool example_input JNull
      (emit (CacheGet Passed example_key)
         (put_store Passed empty_store (after_input example_tool example_input example_world))) =
      Inr (JStr ''found'')"
    by simp
  have set: "set' write_failing_store example_key (JStr ''found'') (cache (config example_tool)) empty_store
      = (Inl (Error ''store unavailable''), empty_store)"
    by (rule write_failing_set)
  show ?thesis
    by (rule cache_write_failure_propagates[OF example_ready_passed write_failing_get falsy call set])
qed

text \<open>
  Claim C6 as stated does not hold.  A store whose \<^verbatim>\<open>get\<close> rejects is passed in the
  options; the function would return \<^verbatim>\<open>"found"\<close>, yet \<^verbatim>\<open>invoke\<close> rejects with the
  error of the store and never dispatches.
\<close>

theorem cache_read_failure_counterexample:
  "callFunc example_tool example_input JNull example_world = Inr (JStr ''found'') \<and>
   fst (invoke example_tool example_input JNull (Some (store_option read_failing_store)) example_world)
     = Inl (Error ''store unavailable'') \<and>
   dispatches (trace (snd (invoke example_tool example_input JNull
     (Some (store_option read_failing_store)) example_world))) = 0"
  by (simp add: invoke_eval example_keyFactory store_option_def read_failing_store_def)

text \<open>
  Claim C6, amended: for every invocation where caching applies, a failure of the
  \<^verbatim>\<open>get\<close> operation of the store on the read path fails the call: \<^verbatim>\<open>invoke\<close> rejects
  with the error of the store and does not dispatch.
\<close>

theorem cache_read_failure_propagates:
  assumes ready: "cache_ready this opts input w c sl key"
    and get: "get c key (store_of sl w) = (Inl e, s1)"
  shows "fst (invoke this input ctx (Some opts) w) = Inl e \<and>
         dispatches (trace (snd (invoke this input ctx (Some opts) w))) = dispatches (trace w)"
proof -
  have g: "cache_get c sl key (after_input this input w) =
      (Inl e, emit (CacheGet sl key) (put_store sl s1 (after_input this input w)))"
    using get by (simp add: cache_get_eq)
  show ?thesis
    unfolding invoke_ready[OF ready] g by (simp add: dispatches_def after_input_def)
qed

theorem cache_read_failure_propagates_witness:
  "fst (invoke example_tool example_input JNull (Some (store_option read_failing_store)) example_world)
     = Inl (Error ''store unavailable'') \<and>
   dispatches (trace (snd (invoke example_tool example_input JNull
     (Some (store_option read_failing_store)) example_world))) = dispatches (trace example_world)"
proof -
  have g: "get read_failing_store example_key (store_of Passed example_world)
       = (Inl (Error ''store unavailable''), empty_store)"
    by (simp add: read_failing_store_def)
  show ?thesis
    by (rule cache_read_failure_propagates[OF example_ready_passed g])
qed

section \<open>The intent \<^verbatim>\<open>action\<close>\<close>

lemma invoke_action_step:
  assumes act: "intents (config this) = Some action"
  shows "own_store (snd (invoke this input ctx options w)) = own_store w \<and>
         passed_store (snd (invoke this input ctx options w)) = passed_store w \<and>
         cache_accesses (trace (snd (invoke this input ctx options w))) = cache_accesses (trace w) \<and>
         (input_accepted this input \<longrightarrow>
            dispatches (trace (snd (invoke this input ctx options w))) = Suc (dispatches (trace w)))"
proof -
  have na: "\<not> caching_applies this options" using act by (simp add: caching_applies_def)
  have acc: "invoke this input ctx options w = invoke_uncached this input ctx (after_input this input w)"
    if "input_accepted this input"
    using that na by (simp add: invoke_accepted)
  obtain r0 w0 where v: "call_validateInput this input w = (r0, w0)"
    by (cases "call_validateInput this input w")
  have w0: "w0 = snd (call_validateInput this input w)" using v by simp
  have gen: "invoke this input ctx options w =
     (if compiledInputSchema this \<noteq> None
      then (case r0 of Inl e \<Rightarrow> (Inl e, w0) | Inr ok \<Rightarrow> invoke_uncached this input ctx w0)
      else invoke_uncached this input ctx w)"
    using na v by (simp add: invoke_def split: sum.splits)
  have frame: "own_store (snd (invoke this input ctx options w)) = own_store w \<and>
         passed_store (snd (invoke this input ctx options w)) = passed_store w \<and>
         cache_accesses (trace (snd (invoke this input ctx options w))) = cache_accesses (trace w)"
    unfolding gen by (cases r0; simp add: w0)
  show ?thesis using frame acc by simp
qed

text \<open>
  With the intent \<^verbatim>\<open>action\<close> an invocation whose input passes returns what the
  dispatch returns: the error of \<^verbatim>\<open>callFunc\<close>, or its result once the result has been
  validated.
\<close>

lemma invoke_action_outcome:
  assumes act: "intents (config this) = Some action" and acc: "input_accepted this input"
  shows "fst (invoke this input ctx options w) =
     (case callFunc this input ctx (after_input this input w) of
        Inl e \<Rightarrow> Inl e
      | Inr result \<Rightarrow>
          fst (validate_and_return this result
                 (emit (Dispatch input ctx) (after_input this input w))))"
proof -
  have na: "\<not> caching_applies this options" using act by (simp add: caching_applies_def)
  have "invoke this input ctx options w = invoke_uncached this input ctx (after_input this input w)"
    using na by (simp add: invoke_accepted[OF acc])
  then show ?thesis
    by (cases "callFunc this input ctx (after_input this input w)")
       (simp_all add: invoke_uncached_def dispatch_def)
qed

text \<open>
  The dispatch of a tool that the constructor has built: the function of the
  descriptor, or a request to its endpoint.
\<close>

lemma new_ToolClass_callFunc:
  assumes "new_ToolClass cfg = Inr this"
  shows "callFunc this input ctx w =
     (case func cfg of
        Some f \<Rightarrow> f input ctx
      | None \<Rightarrow>
          (case httpEndpoint cfg of
             Some ep \<Rightarrow> makeRequest w (url ep) input (Some (method' ep))
           | None \<Rightarrow> Inl (Error ''Tool configuration must have a function or an HTTP endpoint defined.'')))"
  using assms by (auto simp: new_ToolClass_def Let_def split: if_splits option.splits)

text \<open>
  Claim C3: for every tool whose descriptor has the intent \<^verbatim>\<open>action\<close>, whatever its
  cache TTL and whatever the options, any number \<open>n\<close> of repeated identical invocations
  leaves both stores as they were and adds no \<^verbatim>\<open>get\<close> or \<^verbatim>\<open>set\<close> to the events; and
  when the input passes the first statement of \<^verbatim>\<open>invoke\<close>, every one of the \<open>n\<close> calls
  dispatches: the events count \<open>n\<close> more dispatches, and each call returns what
  \<^verbatim>\<open>callFunc\<close> (the function of the descriptor or the request to its endpoint) returns
  on that call, its error or its result after the validation of the result.
\<close>

theorem action_intent_bypasses_cache:
  assumes "intents (config this) = Some action"
  shows "own_store (repeat_invoke n this input ctx options w) = own_store w \<and>
         passed_store (repeat_invoke n this input ctx options w) = passed_store w \<and>
         cache_accesses (trace (repeat_invoke n this input ctx options w)) =
           cache_accesses (trace w) \<and>
         (input_accepted this input \<longrightarrow>
            dispatches (trace (repeat_invoke n this input ctx options w)) =
              dispatches (trace w) + n \<and>
            (\<forall>i<n. fst (invoke this input ctx options (repeat_invoke i this input ctx options w)) =
               (case callFunc this input ctx
                       (after_input this input (repeat_invoke i this input ctx options w)) of
                  Inl e \<Rightarrow> Inl e
                | Inr result \<Rightarrow>
                    fst (validate_and_return this result
                           (emit (Dispatch input ctx)
                              (after_input this input (repeat_invoke i this input ctx options w)))))))"
proof -
  have frame: "own_store (repeat_invoke n this input ctx options w) = own_store w \<and>
         passed_store (repeat_invoke n this input ctx options w) = passed_store w \<and>
         cache_accesses (trace (repeat_invoke n this input ctx options w)) =
           cache_accesses (trace w) \<and>
         (input_accepted this input \<longrightarrow>
            dispatches (trace (repeat_invoke n this input ctx options w)) =
              dispatches (trace w) + n)"
  proof (induction n arbitrary: w)
    case 0
    show ?case by simp
  next
    case (Suc n)
    show ?case
      using Suc.IH[of "snd (invoke this input ctx options w)"]
        invoke_action_step[OF assms, of input ctx options w]
      by simp
  qed
  have outcome: "\<forall>i<n. fst (invoke this input ctx options (repeat_invoke i this input ctx options w)) =
       (case callFunc this input ctx
               (after_input this input (repeat_invoke i this input ctx options w)) of
          Inl e \<Rightarrow> Inl e
        | Inr result \<Rightarrow>
            fst (validate_and_return this result
                   (emit (Dispatch input ctx)
                      (after_input this input (repeat_invoke i this input ctx options w)))))"
    if "input_accepted this input"
    using invoke_action_outcome[OF assms that] by blast
  show ?thesis using frame outcome by blast
qed

theorem action_intent_bypasses_cache_witness:
  "cache (config action_tool) = Some 60000 \<and>
   own_store (repeat_invoke 3 action_tool example_input JNull None example_world) = empty_store \<and>
   passed_store (repeat_invoke 3 action_tool example_input JNull None example_world) = empty_store \<and>
   cache_accesses (trace (repeat_invoke 3 action_tool example_input JNull None example_world)) = [] \<and>
   dispatches (trace (repeat_invoke 3 action_tool example_input JNull None example_world)) = 3 \<and>
   fst (invoke action_tool example_input JNull None
          (repeat_invoke 2 action_tool example_input JNull None example_world)) =
     Inr (JStr ''found'') \<and>
   cache (config remote_tool) = Some 60000 \<and>
   dispatches (trace (repeat_invoke 3 remote_tool example_input JNull None remote_world)) = 3 \<and>
   fst (invoke remote_tool example_input JNull None
          (repeat_invoke 2 remote_tool example_input JNull None remote_world)) =
     makeRequest remote_world ''https://example.org/lookup'' example_input (Some GET) \<and>
   makeRequest remote_world ''https://example.org/lookup'' example_input (Some GET) =
     Inr (JStr ''remote'')"
proof -
  have act: "intents (config action_tool) = Some action"
    by (simp add: action_tool_def)
  have acc: "input_accepted action_tool example_input"
    by (simp add: action_tool_def input_accepted_def)
  have ttl: "cache (config action_tool) = Some 60000"
    by (simp add: action_tool_def)
  have call: "callFunc action_tool example_input JNull w' = Inr (JStr ''found'')" for w'
    by (simp add: action_tool_def)
  have ok: "fst (validate_and_return action_tool r w') = Inr r" for r w'
    by (simp add: validate_and_return_def call_validateResult_def action_tool_def)
  note a = action_intent_bypasses_cache[OF act, of 3 example_input JNull None example_world]
  have a1: "own_store (repeat_invoke 3 action_tool example_input JNull None example_world) = empty_store"
    "passed_store (repeat_invoke 3 action_tool example_input JNull None example_world) = empty_store"
    "cache_accesses (trace (repeat_invoke 3 action_tool example_input JNull None example_world)) = []"
    "dispatches (trace (repeat_invoke 3 action_tool example_input JNull None example_world)) = 3"
    using a acc by (simp_all add: cache_accesses_def dispatches_def)
  have a2: "fst (invoke action_tool example_input JNull None
          (repeat_invoke 2 action_tool example_input JNull None example_world)) = Inr (JStr ''found'')"
  proof -
    have "(2::nat) < 3" by simp
    then have "fst (invoke action_tool example_input JNull None
          (repeat_invoke 2 action_tool example_input JNull None example_world)) =
       (case callFunc action_tool example_input JNull
               (after_input action_tool example_input
                  (repeat_invoke 2 action_tool example_input JNull None example_world)) of
          Inl e \<Rightarrow> Inl e
        | Inr result \<Rightarrow>
            fst (validate_and_return action_tool result
                   (emit (Dispatch example_input JNull)
                      (after_input action_tool example_input
                         (repeat_invoke 2 action_tool example_input JNull None example_world)))))"
      using a acc by blast
    then show ?thesis by (simp only: call ok sum.case)
  qed
  have ract: "intents (config remote_tool) = Some action"
    by (simp add: remote_tool_def remote_config_def)
  have racc: "input_accepted remote_tool example_input"
    by (simp add: remote_tool_def input_accepted_def)
  have rttl: "cache (config remote_tool) = Some 60000"
    by (simp add: remote_tool_def remote_config_def)
  have answer: "makeRequest remote_world ''https://example.org/lookup'' example_input (Some GET) =
      Inr (JStr ''remote'')"
    by (simp add: remote_world_def)
  have rcall: "callFunc remote_tool example_input JNull w' =
      makeRequest w' ''https://example.org/lookup'' example_input (Some GET)" for w'
    by (simp add: remote_tool_def example_endpoint_def)
  have rok: "fst (validate_and_return remote_tool r w') = Inr r" for r w'
    by (simp add: validate_and_return_def call_validateResult_def remote_tool_def)
  have net: "makeRequest (repeat_invoke n remote_tool example_input JNull None w') = makeRequest w'"
    for n w'
  proof (induction n arbitrary: w')
    case 0
    show ?case by simp
  next
    case (Suc n)
    have "makeRequest (snd (invoke remote_tool example_input JNull None w')) = makeRequest w'"
      using ract racc
      by (simp add: invoke_accepted caching_applies_def invoke_uncached_def dispatch_def
          validate_and_return_def call_validateResult_def remote_tool_def split: sum.splits)
    then show ?case using Suc.IH by simp
  qed
  note r = action_intent_bypasses_cache[OF ract, of 3 example_input JNull None remote_world]
  have r1: "dispatches (trace (repeat_invoke 3 remote_tool example_input JNull None remote_world)) = 3"
    using r racc by (simp add: remote_world_def dispatches_def)
  have r2: "fst (invoke remote_tool example_input JNull None
          (repeat_invoke 2 remote_tool example_input JNull None remote_world)) =
      makeRequest remote_world ''https://example.org/lookup'' example_input (Some GET)"
  proof -
    have "(2::nat) < 3" by simp
    then have "fst (invoke remote_tool example_input JNull None
          (repeat_invoke 2 remote_tool example_input JNull None remote_world)) =
       (case callFunc remote_tool example_input JNull
               (after_input remote_tool example_input
                  (repeat_invoke 2 remote_tool example_input JNull None remote_world)) of
          Inl e \<Rightarrow> Inl e
        | Inr result \<Rightarrow>
            fst (validate_and_return remote_tool result
                   (emit (Dispatch example_input JNull)
                      (after_input remote_tool example_input
                         (repeat_invoke 2 remote_tool example_input JNull None remote_world)))))"
      using r racc by blast
    then show ?thesis by (simp add: rcall rok net answer)
  qed
  show ?thesis using ttl a1 a2 rttl r1 r2 answer by simp
qed


section \<open>Cache hits\<close>

text \<open>
  Claim C4 as stated does not hold.  The descriptor is a resource with a TTL of one
  minute.  When its function returns the falsy value \<^verbatim>\<open>0\<close>, two invocations with the
  same input and an options object dispatch twice; and when the options are left out,
  as in the scenario of the spec, two invocations of the example tool dispatch not at
  all.
\<close>

theorem cache_hit_counterexample:
  "cache (config zero_tool) = Some 60000 \<and> intents (config zero_tool) = Some resource \<and>
   dispatches (trace (repeat_invoke (Suc (Suc 0)) zero_tool example_input JNull
     (Some no_cache_option) example_world)) = 2 \<and>
   dispatches (trace (repeat_invoke (Suc (Suc 0)) example_tool example_input JNull
     None example_world)) = 0"
  by (simp add: invoke_eval example_keyFactory no_cache_option_def)

text \<open>
  Claim C4, amended: for every resource descriptor with a cache TTL set, when
  \<^verbatim>\<open>invoke\<close> is called twice with identical input and with an options object whose
  cache resolves to a store that keeps what it is given until the TTL has passed (the
  in-memory store of the model), the first call finds no entry, and the function
  returns a truthy result, then within the TTL the second call returns that result,
  the function has been dispatched exactly once over the two calls, and the second
  call consists of the input check and the lookup only: no dispatch and no validation
  of the result.
\<close>

theorem cache_hit_short_circuits_dispatch:
  assumes ready: "cache_ready this opts input w Keyv sl key"
    and ttl: "cache (config this) = Some ttl"
    and fresh: "entries (store_of sl w) key = None"
    and call: "\<And>w'. callFunc this input ctx w' = Inr result"
    and truthy: "truthy result"
    and d: "0 \<le> d" "d \<le> int ttl"
  shows "fst (invoke this input ctx (Some opts)
                (advance d (snd (invoke this input ctx (Some opts) w)))) = Inr result \<and>
         dispatches (trace (snd (invoke this input ctx (Some opts)
                (advance d (snd (invoke this input ctx (Some opts) w)))))) =
           Suc (dispatches (trace w)) \<and>
         trace (snd (invoke this input ctx (Some opts)
                (advance d (snd (invoke this input ctx (Some opts) w))))) =
           trace (after_input this input (snd (invoke this input ctx (Some opts) w))) @
             [CacheGet sl key]"
proof -
  let ?s = "store_of sl w"
  let ?s2 = "?s\<lparr>entries := (entries ?s)(key \<mapsto> (result, Keyv_expires (Some ttl) ?s))\<rparr>"
  let ?w1 = "emit (CacheGet sl key) (put_store sl ?s (after_input this input w))"
  let ?w3 = "emit (CacheSet sl key result (cache (config this)))
               (put_store sl ?s2 (emit (Dispatch input ctx) ?w1))"
  let ?first = "invoke this input ctx (Some opts) w"
  have nz: "ttl \<noteq> 0"
    using ready ttl by (simp add: cache_ready_def caching_applies_def)
  have get1: "get Keyv key ?s = (Inr None, ?s)"
    using fresh by (rule Keyv_get_absent)
  have first: "?first = validate_and_return this result ?w3"
  proof -
    have "?first = invoke_miss this input ctx Keyv sl key ?w1"
      by (rule invoke_falsy[OF ready get1]) simp
    also have "\<dots> = validate_and_return this result ?w3"
      by (rule invoke_miss_stored[where b = True]) (simp_all add: call Keyv_set_eq ttl)
    finally show ?thesis .
  qed
  let ?w = "advance d (snd ?first)"
  have store1: "store_of sl (snd ?first) = ?s2"
    by (simp add: first)
  have disp1: "dispatches (trace (snd ?first)) = Suc (dispatches (trace w))"
    by (simp add: first) (simp add: dispatches_def after_input_def)
  have ready2: "cache_ready this opts input ?w Keyv sl key"
    using ready by (simp add: cache_ready_def first)
  have get2: "get Keyv key (store_of sl ?w) = (Inr (Some result), store_of sl ?w)"
    by (rule Keyv_get_live[where t = "clock ?s + int ttl"])
       (use d nz in \<open>simp_all add: store1 Keyv_expires_def\<close>)
  have same: "put_store sl (store_of sl ?w) (after_input this input ?w) = after_input this input ?w"
    by (metis after_input_simps(5) put_store_same)
  have second: "invoke this input ctx (Some opts) ?w =
      (Inr result, emit (CacheGet sl key) (after_input this input ?w))"
    by (simp only: invoke_hit[OF ready2 get2 truthy] same)
  have tr: "trace (after_input this input ?w) = trace (after_input this input (snd ?first))"
    by (simp add: after_input_def)
  show ?thesis
    using disp1 by (simp add: second tr dispatches_def after_input_def)
qed

theorem cache_hit_short_circuits_dispatch_witness:
  "fst (invoke example_tool example_input JNull (Some no_cache_option)
     (advance 1000 (snd (invoke example_tool example_input JNull (Some no_cache_option) example_world))))
     = Inr (JStr ''found'') \<and>
   dispatches (trace (snd (invoke example_tool example_input JNull (Some no_cache_option)
     (advance 1000 (snd (invoke example_tool example_input JNull (Some no_cache_option) example_world))))))
     = 1 \<and>
   trace (snd (invoke example_tool example_input JNull (Some no_cache_option)
     (advance 1000 (snd (invoke example_tool example_input JNull (Some no_cache_option) example_world)))))
     = trace (after_input example_tool example_input
         (snd (invoke example_tool example_input JNull (Some no_cache_option) example_world))) @
       [CacheGet Own example_key]"
proof -
  have ttl: "cache (config example_tool) = Some 60000" by simp
  have fresh: "entries (store_of Own example_world) example_key = None"
    by (simp add: empty_store_def)
  have call: "\<And>w'. callFunc example_tool example_input JNull w' = Inr (JStr ''found'')"
    by simp
  have truthy: "truthy (JStr ''found'')" by simp
  have d: "(0::int) \<le> 1000" "(1000::int) \<le> int 60000" by simp_all
  have none: "dispatches (trace example_world) = 0" by (simp add: dispatches_def)
  note t = cache_hit_short_circuits_dispatch[OF example_ready_own ttl fresh call truthy d,
      unfolded none]
  show ?thesis unfolding One_nat_def by (rule t)
qed

text \<open>
  Claim C10: for every invocation where caching applies, if the store answers the
  lookup with a falsy value (\<^verbatim>\<open>null\<close>, \<^verbatim>\<open>false\<close>, \<^verbatim>\<open>0\<close>, the empty string) or with
  nothing, \<^verbatim>\<open>invoke\<close> treats it as a miss: it dispatches the function again and, when
  the function returns, writes the result to the store under the same key, so the
  state of the store is the one its \<^verbatim>\<open>set\<close> leaves.
\<close>

theorem falsy_cached_value_is_a_miss:
  assumes ready: "cache_ready this opts input w c sl key"
    and get: "get c key (store_of sl w) = (Inr stored, s1)"
    and falsy: "\<not> truthy_opt stored"
    and call: "callFunc this input ctx
                 (emit (CacheGet sl key) (put_store sl s1 (after_input this input w))) = Inr result"
    and set: "set' c key result (cache (config this)) s1 = (r, s2)"
  shows "store_of sl (snd (invoke this input ctx (Some opts) w)) = s2 \<and>
         dispatches (trace (snd (invoke this input ctx (Some opts) w))) = Suc (dispatches (trace w)) \<and>
         (\<exists>evs. trace (snd (invoke this input ctx (Some opts) w)) =
            trace (after_input this input w) @
              [CacheGet sl key, Dispatch input ctx, CacheSet sl key result (cache (config this))] @ evs)"
proof -
  let ?w1 = "emit (CacheGet sl key) (put_store sl s1 (after_input this input w))"
  let ?w2 = "emit (Dispatch input ctx) ?w1"
  let ?w3 = "emit (CacheSet sl key result (cache (config this))) (put_store sl s2 ?w2)"
  have d: "dispatch this input ctx ?w1 = (Inr result, ?w2)"
    using call by (simp add: dispatch_def)
  have s: "cache_set c sl key result (cache (config this)) ?w2 = (r, ?w3)"
    using set by (simp add: cache_set_eq)
  have inv: "invoke this input ctx (Some opts) w =
      (case r of Inl e \<Rightarrow> (Inl e, ?w3) | Inr stored \<Rightarrow> validate_and_return this result ?w3)"
    by (cases r) (simp_all add: invoke_falsy[OF ready get falsy] invoke_miss_def d s)
  have tr: "\<exists>evs. trace (snd (validate_and_return this result ?w3)) = trace ?w3 @ evs"
    by (rule validate_and_return_trace)
  have st: "store_of sl (snd (validate_and_return this result ?w3)) = s2"
    by (cases sl) simp_all
  have dc: "dispatches (trace ?w3) = Suc (dispatches (trace w))"
    by (simp add: dispatches_def after_input_def)
  show ?thesis
  proof (cases r)
    case (Inl e)
    then show ?thesis using dc by (simp add: inv)
  next
    case (Inr b)
    have "dispatches (trace (snd (validate_and_return this result ?w3))) = Suc (dispatches (trace w))"
      using dc by simp
    moreover have "\<exists>evs. trace (snd (validate_and_return this result ?w3)) =
        trace (after_input this input w) @
          [CacheGet sl key, Dispatch input ctx, CacheSet sl key result (cache (config this))] @ evs"
      using tr by simp
    ultimately show ?thesis using Inr st by (simp add: inv)
  qed
qed

theorem falsy_cached_value_is_a_miss_witness:
  "get Keyv example_key (own_store stale_world) = (Inr (Some (JNum 0)), own_store stale_world) \<and>
   store_of Own (snd (invoke zero_tool example_input JNull (Some no_cache_option) stale_world)) =
     \<lparr>clock = 0, entries = [example_key \<mapsto> (JNum 0, Some 60000)]\<rparr> \<and>
   dispatches (trace (snd (invoke zero_tool example_input JNull (Some no_cache_option) stale_world))) = 1 \<and>
   (\<exists>evs. trace (snd (invoke zero_tool example_input JNull (Some no_cache_option) stale_world)) =
      [ValidateInput example_input, CacheGet Own example_key, Dispatch example_input JNull,
       CacheSet Own example_key (JNum 0) (Some 60000)] @ evs)"
proof -
  have ready: "cache_ready zero_tool no_cache_option example_input stale_world Keyv Own example_key"
    by (simp add: cache_ready_def caching_applies_def input_accepted_def resolve_cache_def
        no_cache_option_def example_keyFactory)
  have get: "get Keyv example_key (store_of Own stale_world) =
      (Inr (Some (JNum 0)), own_store stale_world)"
    by (simp add: Keyv_def Keyv_get_def)
  have falsy: "\<not> truthy_opt (Some (JNum 0))" by simp
  have call: "callFunc zero_tool example_input JNull
      (emit (CacheGet Own example_key)
        (put_store Own (own_store stale_world) (after_input zero_tool example_input stale_world))) =
      Inr (JNum 0)"
    by simp
  have set: "set' Keyv example_key (JNum 0) (cache (config zero_tool)) (own_store stale_world) =
      (Inr True, \<lparr>clock = 0, entries = [example_key \<mapsto> (JNum 0, Some 60000)]\<rparr>)"
    by (simp add: Keyv_def Keyv_set_def Keyv_expires_def)
  show ?thesis
    using falsy_cached_value_is_a_miss[OF ready get falsy call set] get
    by (simp add: after_input_def dispatches_def)
qed


section \<open>Options left out\<close>

lemma own_frame_invoke_miss:
  "own_store (snd (invoke_miss this input ctx c Passed key w)) = own_store w \<and>
   own_accesses (trace (snd (invoke_miss this input ctx c Passed key w))) = own_accesses (trace w)"
proof -
  obtain r w1 where d: "dispatch this input ctx w = (r, w1)"
    by (cases "dispatch this input ctx w")
  have p1: "own_store w1 = own_store w \<and> own_accesses (trace w1) = own_accesses (trace w)"
    using d by (auto simp: dispatch_def)
  show ?thesis
  proof (cases r)
    case (Inl e)
    then show ?thesis using p1 by (simp add: invoke_miss_def d)
  next
    case (Inr res)
    obtain r2 w2 where s: "cache_set c Passed key res (cache (config this)) w1 = (r2, w2)"
      by (cases "cache_set c Passed key res (cache (config this)) w1")
    have p2: "own_store w2 = own_store w1 \<and> own_accesses (trace w2) = own_accesses (trace w1)"
      using s by (auto simp: cache_set_def split: prod.splits)
    have p3: "own_accesses (trace (snd (validate_and_return this res w2))) = own_accesses (trace w2)"
      by (simp add: validate_and_return_def call_validateResult_def
          split: option.splits sum.splits)
    show ?thesis
      using p1 p2 p3 by (cases r2) (simp_all add: invoke_miss_def d Inr s)
  qed
qed

lemma own_frame_invoke_cached:
  assumes "options = None \<or> (\<exists>opts. options = Some opts \<and> options_cache opts \<noteq> CUndefined)"
  shows "own_store (snd (invoke_cached this input ctx options w)) = own_store w \<and>
         own_accesses (trace (snd (invoke_cached this input ctx options w))) = own_accesses (trace w)"
proof (cases options)
  case None
  then show ?thesis by (simp add: invoke_cached_def split: sum.splits)
next
  case (Some opts)
  then have nu: "options_cache opts \<noteq> CUndefined" using assms by simp
  then have res: "resolve_cache this opts = (options_cache opts, Passed)"
    by (cases "options_cache opts") (simp_all add: resolve_cache_def)
  show ?thesis
  proof (cases "keyFactory this (runtime w) (name (config this)) input")
    case (Inl e)
    then show ?thesis by (simp add: invoke_cached_def)
  next
    case (Inr key)
    show ?thesis
    proof (cases "options_cache opts")
      case (CStore c)
      obtain r w1 where g: "cache_get c Passed key w = (r, w1)"
        by (cases "cache_get c Passed key w")
      have f1: "own_store w1 = own_store w \<and> own_accesses (trace w1) = own_accesses (trace w)"
        using g by (auto simp: cache_get_def split: prod.splits)
      show ?thesis
        using Some Inr res CStore f1 own_frame_invoke_miss[of this input ctx c key w1]
        by (cases r) (auto simp: invoke_cached_def g split: option.splits)
    qed (use Some Inr res in \<open>simp_all add: invoke_cached_def\<close>)
  qed
qed

lemma own_frame_invoke_uncached:
  "own_accesses (trace (snd (invoke_uncached this input ctx w))) = own_accesses (trace w)"
proof -
  obtain r w1 where d: "dispatch this input ctx w = (r, w1)"
    by (cases "dispatch this input ctx w")
  have p1: "own_accesses (trace w1) = own_accesses (trace w)"
    using d by (auto simp: dispatch_def)
  have p3: "own_accesses (trace (snd (validate_and_return this res w1))) = own_accesses (trace w1)"
    for res
    by (simp add: validate_and_return_def call_validateResult_def
        split: option.splits sum.splits)
  show ?thesis using p1 p3 by (cases r) (simp_all add: invoke_uncached_def d)
qed

lemma own_frame_invoke:
  assumes "options = None \<or> (\<exists>opts. options = Some opts \<and> options_cache opts \<noteq> CUndefined)"
  shows "own_store (snd (invoke this input ctx options w)) = own_store w \<and>
         own_accesses (trace (snd (invoke this input ctx options w))) = own_accesses (trace w)"
proof -
  obtain r0 w0 where v: "call_validateInput this input w = (r0, w0)"
    by (cases "call_validateInput this input w")
  have p0: "own_store w0 = own_store w \<and> own_accesses (trace w0) = own_accesses (trace w)"
    using v by (auto simp: call_validateInput_def split: option.splits)
  note c = own_frame_invoke_cached[OF assms]
  note u = own_frame_invoke_uncached
  show ?thesis
    using c[of this input ctx w] c[of this input ctx w0] u[of this input ctx w]
      u[of this input ctx w0] p0
    by (cases r0) (simp_all add: invoke_def v)
qed

text \<open>
  Claim C9: for every tool whose descriptor has a cache TTL set and the intent
  \<^verbatim>\<open>resource\<close>, once the input has passed and the key is derived, \<^verbatim>\<open>invoke\<close> without
  an options argument throws a \<^verbatim>\<open>TypeError\<close> while resolving the store (it reads
  \<^verbatim>\<open>options.cache\<close>) and touches no store and no function.  With an options object
  that has no \<^verbatim>\<open>cache\<close> field, the first access is a \<^verbatim>\<open>get\<close> on the store held by
  the tool; and with no options, or with options whose \<^verbatim>\<open>cache\<close> field is set, the
  store held by the tool is never accessed.
\<close>

theorem omitted_options_throw_TypeError:
  assumes applies: "caching_applies this None"
    and accepted: "input_accepted this input"
    and key: "keyFactory this (runtime w) (name (config this)) input = Inr key"
  shows "invoke this input ctx None w =
           (Inl (TypeError ''options is undefined (reading cache)''), after_input this input w) \<and>
         (\<forall>opts c. options_cache opts = CUndefined \<and> this_cache this = CStore c \<longrightarrow>
            (\<exists>evs. trace (snd (invoke this input ctx (Some opts) w)) =
               trace (after_input this input w) @ CacheGet Own key # evs)) \<and>
         (\<forall>options. options = None \<or> (\<exists>opts. options = Some opts \<and> options_cache opts \<noteq> CUndefined) \<longrightarrow>
            own_store (snd (invoke this input ctx options w)) = own_store w \<and>
            own_accesses (trace (snd (invoke this input ctx options w))) = own_accesses (trace w))"
proof (intro conjI allI impI)
  show "invoke this input ctx None w =
      (Inl (TypeError ''options is undefined (reading cache)''), after_input this input w)"
    using applies key by (simp add: invoke_accepted[OF accepted] invoke_cached_def)
next
  fix opts :: InvokeToolOptions and c
  assume a: "options_cache opts = CUndefined \<and> this_cache this = CStore c"
  have ready: "cache_ready this opts input w c Own key"
    using applies accepted key a
    by (simp add: cache_ready_def caching_applies_def resolve_cache_def)
  obtain r s1 where g: "get c key (store_of Own w) = (r, s1)"
    by (cases "get c key (store_of Own w)")
  let ?w1 = "emit (CacheGet Own key) (put_store Own s1 (after_input this input w))"
  have cg: "cache_get c Own key (after_input this input w) = (r, ?w1)"
    using g by (simp add: cache_get_eq)
  have t1: "trace ?w1 = trace (after_input this input w) @ [CacheGet Own key]" by simp
  obtain evs where m: "trace (snd (invoke_miss this input ctx c Own key ?w1)) = trace ?w1 @ evs"
    using invoke_miss_trace by blast
  have "\<exists>evs. trace (snd (invoke this input ctx (Some opts) w)) = trace ?w1 @ evs"
    unfolding invoke_ready[OF ready] cg using m
    by (auto split: sum.splits option.splits)
  then show "\<exists>evs. trace (snd (invoke this input ctx (Some opts) w)) =
      trace (after_input this input w) @ CacheGet Own key # evs"
    unfolding t1 by simp
next
  fix options :: "InvokeToolOptions option"
  assume "options = None \<or> (\<exists>opts. options = Some opts \<and> options_cache opts \<noteq> CUndefined)"
  then show "own_store (snd (invoke this input ctx options w)) = own_store w"
    and "own_accesses (trace (snd (invoke this input ctx options w))) = own_accesses (trace w)"
    using own_frame_invoke by blast+
qed

theorem omitted_options_throw_TypeError_witness:
  "invoke example_tool example_input JNull None example_world =
     (Inl (TypeError ''options is undefined (reading cache)''),
      after_input example_tool example_input example_world) \<and>
   (\<exists>evs. trace (snd (invoke example_tool example_input JNull (Some no_cache_option) example_world)) =
      trace (after_input example_tool example_input example_world) @
        CacheGet Own example_key # evs) \<and>
   own_store (snd (invoke example_tool example_input JNull (Some (store_option Keyv)) example_world))
     = own_store example_world \<and>
   own_accesses (trace (snd (invoke example_tool example_input JNull (Some (store_option Keyv))
     example_world))) = own_accesses (trace example_world)"
proof -
  have applies: "caching_applies example_tool None"
    by (simp add: caching_applies_def)
  have accepted: "input_accepted example_tool example_input"
    by (simp add: input_accepted_def)
  have key: "keyFactory example_tool (runtime example_world) (name (config example_tool))
      example_input = Inr example_key"
    by (simp add: example_keyFactory)
  note t = omitted_options_throw_TypeError[OF applies accepted key, of JNull]
  have o1: "options_cache no_cache_option = CUndefined \<and> this_cache example_tool = CStore Keyv"
    by (simp add: no_cache_option_def)
  have o2: "Some (store_option Keyv) = None \<or>
      (\<exists>opts. Some (store_option Keyv) = Some opts \<and> options_cache opts \<noteq> CUndefined)"
    by (simp add: store_option_def)
  from t o1 o2 show ?thesis by blast
qed

section \<open>Construction\<close>

text \<open>
  Claim C7: for every descriptor in which both \<^verbatim>\<open>func\<close> and \<^verbatim>\<open>httpEndpoint\<close> are
  set, or neither is, the constructor of \<^verbatim>\<open>ToolClass\<close> and \<^verbatim>\<open>makeTool\<close> fail with the
  configuration error, and neither yields a tool.
\<close>

theorem construction_requires_exactly_one_target:
  assumes "(func cfg \<noteq> None \<and> httpEndpoint cfg \<noteq> None) \<or> (func cfg = None \<and> httpEndpoint cfg = None)"
  shows "new_ToolClass cfg =
           Inl (Error ''Tool configuration must have either a function or an endpoint defined.'') \<and>
         makeTool cfg =
           Inl (Error ''Tool configuration must have either a function or an endpoint defined.'') \<and>
         (\<nexists>tool. new_ToolClass cfg = Inr tool) \<and> (\<nexists>tool. makeTool cfg = Inr tool)"
proof -
  have "new_ToolClass cfg =
          Inl (Error ''Tool configuration must have either a function or an endpoint defined.'')"
    using assms by (auto simp: new_ToolClass_def)
  then show ?thesis by (simp add: makeTool_def)
qed

theorem construction_requires_exactly_one_target_witness:
  "makeTool (example_config\<lparr>httpEndpoint := Some example_endpoint\<rparr>) =
     Inl (Error ''Tool configuration must have either a function or an endpoint defined.'') \<and>
   makeTool (example_config\<lparr>func := None\<rparr>) =
     Inl (Error ''Tool configuration must have either a function or an endpoint defined.'') \<and>
   new_ToolClass (example_config\<lparr>httpEndpoint := Some example_endpoint\<rparr>) =
     Inl (Error ''Tool configuration must have either a function or an endpoint defined.'') \<and>
   new_ToolClass (example_config\<lparr>func := None\<rparr>) =
     Inl (Error ''Tool configuration must have either a function or an endpoint defined.'')"
proof -
  have both: "(func (example_config\<lparr>httpEndpoint := Some example_endpoint\<rparr>) \<noteq> None \<and>
               httpEndpoint (example_config\<lparr>httpEndpoint := Some example_endpoint\<rparr>) \<noteq> None) \<or>
              (func (example_config\<lparr>httpEndpoint := Some example_endpoint\<rparr>) = None \<and>
               httpEndpoint (example_config\<lparr>httpEndpoint := Some example_endpoint\<rparr>) = None)"
    by simp
  have neither: "(func (example_config\<lparr>func := None\<rparr>) \<noteq> None \<and>
                  httpEndpoint (example_config\<lparr>func := None\<rparr>) \<noteq> None) \<or>
                 (func (example_config\<lparr>func := None\<rparr>) = None \<and>
                  httpEndpoint (example_config\<lparr>func := None\<rparr>) = None)"
    by simp
  show ?thesis
    using construction_requires_exactly_one_target[OF both]
      construction_requires_exactly_one_target[OF neither]
    by blast
qed

text \<open>When exactly one of the two is set, the constructor returns an instance.\<close>

lemma construction_succeeds:
  assumes "(func cfg = None) \<noteq> (httpEndpoint cfg = None)"
  shows "\<exists>tool. new_ToolClass cfg = Inr tool"
  using assms by (auto simp: new_ToolClass_def Let_def)

section \<open>Validation\<close>

text \<open>
  Claim C5 fails on the result side.  The descriptor sets \<^verbatim>\<open>validateResult: false\<close>,
  so the constructor compiles no result schema; \<^verbatim>\<open>invoke\<close> still calls
  \<^verbatim>\<open>this.validateResult(result)\<close> after the dispatch, which reads
  \<^verbatim>\<open>this.compiledResultSchema.Errors\<close> on \<^verbatim>\<open>undefined\<close>: the invocation throws a
  \<^verbatim>\<open>TypeError\<close> although the function returned.  On a tool built by \<^verbatim>\<open>makeTool\<close> the
  flag copied by \<^verbatim>\<open>Object.assign\<close> hides the method, and the call throws as well.
\<close>

theorem disabled_result_validation_throws:
  "opt_validateResult unchecked_config = Some False \<and>
   new_ToolClass unchecked_config = Inr unchecked_tool \<and>
   callFunc unchecked_tool example_input JNull example_world = Inr (JStr ''found'') \<and>
   fst (invoke unchecked_tool example_input JNull None example_world) =
     Inl (TypeError ''this.compiledResultSchema is undefined'') \<and>
   makeTool unchecked_config = Inr (unchecked_tool\<lparr>own_validateResult := Some False\<rparr>) \<and>
   fst (invoke (unchecked_tool\<lparr>own_validateResult := Some False\<rparr>) example_input JNull None
     example_world) = Inl (TypeError ''this.validateResult is not a function'')"
  by (simp add: new_ToolClass_unchecked makeTool_unchecked)
     (simp add: invoke_eval unchecked_tool_def unchecked_config_def const_func_def)

text \<open>
  The input side has the guard the result side lacks: with \<^verbatim>\<open>validateInput: false\<close>
  no input schema is compiled and \<^verbatim>\<open>invoke\<close> goes straight to the cache decision.
\<close>

lemma disabled_input_validation:
  assumes "opt_validateInput cfg = Some False" and "new_ToolClass cfg = Inr tool"
  shows "compiledInputSchema tool = None \<and>
         invoke tool input ctx options w =
           (if caching_applies tool options then invoke_cached tool input ctx options w
            else invoke_uncached tool input ctx w)"
proof -
  have "compiledInputSchema tool = None"
    using assms by (auto simp: new_ToolClass_def Let_def split: if_splits)
  then show ?thesis by (simp add: invoke_def)
qed

text \<open>
  \<^verbatim>\<open>validateInput\<close> tests \<^verbatim>\<open>errors.First()\<close> and then spreads the same iterator, so
  the error it throws carries the violations after the first one.
\<close>

lemma validateInput_drops_first:
  assumes "compiledInputSchema this = Some check" and "check input \<noteq> []"
  shows "validateInput this input = Inl (ValidationError (tl (check input)) (Some ''input''))"
  using assms by (cases "check input") (simp_all add: validateInput_def Errors_def spread_def)


text \<open>
  A required property that is missing is enumerated twice, so that after the loss of
  the first entry one entry for it still arrives.
\<close>

lemma missing_required_property:
  "Errors person_check (JObj [(''age'', JNum 30)]) =
     [(''/name'', ''Expected required property''), (''/name'', ''Expected string'')] \<and>
   validateInput person_tool (JObj [(''age'', JNum 30)]) =
     Inl (ValidationError [(''/name'', ''Expected string'')] (Some ''input''))"
  by (simp add: validateInput_def Errors_def spread_def person_tool_def person_check_def)


section \<open>Further consequences\<close>

text \<open>
  With the in-memory store, a function that always returns the same falsy result is
  dispatched by every one of \<open>n\<close> repeated invocations: what each call stores is
  falsy again.
\<close>

lemma Keyv_get_falsy:
  assumes "case entries s key of None \<Rightarrow> True | Some (v, t) \<Rightarrow> \<not> truthy v"
  shows "\<exists>stored s1. get Keyv key s = (Inr stored, s1) \<and> \<not> truthy_opt stored"
  using assms by (auto simp: Keyv_def Keyv_get_def split: option.splits)

lemma invoke_falsy_result_step:
  assumes applies: "caching_applies this (Some opts)"
    and accepted: "input_accepted this input"
    and key: "keyFactory this (runtime w) (name (config this)) input = Inr key"
    and resolve: "resolve_cache this opts = (CStore Keyv, sl)"
    and call: "\<And>w'. callFunc this input ctx w' = Inr result"
    and falsy: "\<not> truthy result"
    and inv: "holds_falsy sl key w"
  shows "dispatches (trace (snd (invoke this input ctx (Some opts) w))) = Suc (dispatches (trace w)) \<and>
         runtime (snd (invoke this input ctx (Some opts) w)) = runtime w \<and>
         holds_falsy sl key (snd (invoke this input ctx (Some opts) w))"
proof -
  have ready: "cache_ready this opts input w Keyv sl key"
    using applies accepted key resolve by (simp add: cache_ready_def)
  obtain stored s1 where get: "get Keyv key (store_of sl w) = (Inr stored, s1)"
    and nt: "\<not> truthy_opt stored"
    using Keyv_get_falsy[of "store_of sl w" key] inv by (auto simp: holds_falsy_def)
  let ?w1 = "emit (CacheGet sl key) (put_store sl s1 (after_input this input w))"
  let ?s2 = "s1\<lparr>entries := (entries s1)(key \<mapsto> (result, Keyv_expires (cache (config this)) s1))\<rparr>"
  let ?w3 = "emit (CacheSet sl key result (cache (config this)))
               (put_store sl ?s2 (emit (Dispatch input ctx) ?w1))"
  have "invoke this input ctx (Some opts) w = invoke_miss this input ctx Keyv sl key ?w1"
    by (rule invoke_falsy[OF ready get nt])
  also have "\<dots> = validate_and_return this result ?w3"
    by (rule invoke_miss_stored[where b = True]) (simp_all add: call Keyv_set_eq)
  finally have inv_eq: "invoke this input ctx (Some opts) w = validate_and_return this result ?w3" .
  have d: "dispatches (trace ?w3) = Suc (dispatches (trace w))"
    by (simp add: dispatches_def after_input_def)
  have "store_of sl (snd (validate_and_return this result ?w3)) = ?s2" by simp
  then have h: "holds_falsy sl key (snd (validate_and_return this result ?w3))"
    using falsy by (simp add: holds_falsy_def)
  show ?thesis using d h by (simp add: inv_eq)
qed

lemma falsy_results_recomputed_on_every_call:
  assumes applies: "caching_applies this (Some opts)"
    and accepted: "input_accepted this input"
    and key: "keyFactory this (runtime w) (name (config this)) input = Inr key"
    and resolve: "resolve_cache this opts = (CStore Keyv, sl)"
    and call: "\<And>w'. callFunc this input ctx w' = Inr result"
    and falsy: "\<not> truthy result"
    and inv: "holds_falsy sl key w"
  shows "dispatches (trace (repeat_invoke n this input ctx (Some opts) w)) = dispatches (trace w) + n"
  using key inv
proof (induction n arbitrary: w)
  case 0
  show ?case by simp
next
  case (Suc n)
  note step = invoke_falsy_result_step[OF applies accepted Suc.prems(1) resolve call falsy Suc.prems(2)]
  have k: "keyFactory this (runtime (snd (invoke this input ctx (Some opts) w))) (name (config this)) input
      = Inr key"
    using step Suc.prems(1) by simp
  show ?case
    using Suc.IH[OF k] step by simp
qed

text \<open>
  A tool built by \<^verbatim>\<open>makeTool\<close> from a descriptor with a TTL holds that number in its
  property \<^verbatim>\<open>cache\<close>: an invocation that falls back to \<^verbatim>\<open>this.cache\<close> fails at
  \<^verbatim>\<open>cache.get\<close>.
\<close>

lemma makeTool_overwrites_store:
  assumes made: "makeTool cfg = Inr tool" and ttl: "cache cfg = Some ttl"
  shows "this_cache tool = CNumber ttl"
proof -
  obtain t where n: "new_ToolClass cfg = Inr t" and tool: "tool = Object_assign t (config t)"
    using made by (auto simp: makeTool_def split: sum.splits)
  have "cache (config t) = Some ttl"
    using n ttl by (auto simp: new_ToolClass_def Let_def split: if_splits)
  then show ?thesis by (simp add: tool Object_assign_def)
qed

lemma makeTool_default_store_unusable:
  assumes made: "makeTool cfg = Inr tool" and ttl: "cache cfg = Some ttl"
    and applies: "caching_applies tool (Some opts)"
    and accepted: "input_accepted tool input"
    and key: "keyFactory tool (runtime w) (name (config tool)) input = Inr key"
    and nocache: "options_cache opts = CUndefined"
  shows "invoke tool input ctx (Some opts) w =
           (Inl (TypeError ''cache.get is not a function''), after_input tool input w)"
  using makeTool_overwrites_store[OF made ttl] applies key nocache
  by (simp add: invoke_accepted[OF accepted] invoke_cached_def resolve_cache_def)

text \<open>
  The earlier revision accepts a descriptor with both \<^verbatim>\<open>func\<close> and
  \<^verbatim>\<open>httpEndpoint\<close>, and enters its caching branch for the intent \<^verbatim>\<open>action\<close>.
\<close>

lemma legacy_constructor_accepts_both:
  "func cfg \<noteq> None \<Longrightarrow> httpEndpoint cfg \<noteq> None \<Longrightarrow> \<not> legacy_constructor_throws cfg"
  by (simp add: legacy_constructor_throws_def)

lemma legacy_caching_ignores_intent:
  "cache cfg = Some ttl \<Longrightarrow> ttl \<noteq> 0 \<Longrightarrow> intents cfg = Some action \<Longrightarrow>
   legacy_caching_applies cfg None \<and> legacy_caching_applies cfg (Some no_cache_option)"
  by (simp add: legacy_caching_applies_def no_cache_option_def)

end
